theory Spec2Isabelle
  imports Main "HOL-Library.Word" "HOL-Library.Char_ord" "HOL-Library.List_Lexorder"
begin

unbundle bit_operations_syntax

section \<open>Go integers and decimal strings\<close>

text \<open>
  Go's \<^verbatim>\<open>int\<close> is a 64-bit two's-complement integer on the platforms the emulator is
  built for. It is modelled as an \<^typ>\<open>int\<close> with the wrap-around of each arithmetic
  operation written out by \<open>wrap64\<close>.
\<close>

definition wrap64 :: "int \<Rightarrow> int" where
  "wrap64 i = (i + 2 ^ 63) mod 2 ^ 64 - 2 ^ 63"

definition MaxInt64 :: int where
  "MaxInt64 = 2 ^ 63 - 1"

text \<open>\<^verbatim>\<open>strconv.Itoa\<close>: the decimal digits of an integer, with a minus sign when negative.\<close>

definition digit_char :: "nat \<Rightarrow> char" where
  "digit_char d = ''0123456789'' ! d"

fun uitoa :: "nat \<Rightarrow> string" where
  "uitoa n = (if n < 10 then [digit_char n] else uitoa (n div 10) @ [digit_char (n mod 10)])"

declare uitoa.simps [simp del]

definition Itoa :: "int \<Rightarrow> string" where
  "Itoa i = (if i < 0 then CHR ''-'' # uitoa (nat (- i)) else uitoa (nat i))"

text \<open>
  \<^verbatim>\<open>strconv.Atoi\<close>: an optional sign followed by at least one decimal digit, the value
  within the range of \<^verbatim>\<open>int\<close>; anything else is an error (\<open>None\<close>).
\<close>

definition digit_val :: "char \<Rightarrow> nat option" where
  "digit_val c =
     (if 48 \<le> (of_char c :: nat) \<and> (of_char c :: nat) \<le> 57 then Some (of_char c - 48) else None)"

fun parse_digits :: "string \<Rightarrow> nat \<Rightarrow> nat option" where
  "parse_digits [] acc = Some acc"
| "parse_digits (c # cs) acc =
     (case digit_val c of None \<Rightarrow> None | Some d \<Rightarrow> parse_digits cs (acc * 10 + d))"

definition Atoi :: "string \<Rightarrow> int option" where
  "Atoi s =
     (let neg = (s \<noteq> [] \<and> hd s = CHR ''-'');
          ds = (if s \<noteq> [] \<and> (hd s = CHR ''-'' \<or> hd s = CHR ''+'') then tl s else s)
      in if ds = [] then None
         else (case parse_digits ds 0 of
                 None \<Rightarrow> None
               | Some n \<Rightarrow>
                   (let v = (if neg then - int n else int n)
                    in if - (2 ^ 63) \<le> v \<and> v \<le> MaxInt64 then Some v else None)))"

section \<open>The data model (package models)\<close>

type_synonym byte = "8 word"

text \<open>A \<^verbatim>\<open>time.Time\<close> is an instant; it is read from the clock, never computed with.\<close>

type_synonym time = int

datatype SecretVersionState = StateEnabled | StateDisabled | StateDestroyed

record SecretVersionChecksum =
  Crc32c :: string
  Sha256 :: string

text \<open>
  \<^verbatim>\<open>SecretVersion\<close>. The checksum is a pointer in the source, \<open>None\<close> is its nil.
\<close>

record SecretVersion =
  Name :: string
  CreateTime :: time
  State :: SecretVersionState
  Etag :: string
  Data :: "byte list"
  Checksum :: "SecretVersionChecksum option"

datatype CustomerManagedEncryption = CustomerManagedEncryption (KmsKeyName: string)

datatype AutomaticReplication =
  AutomaticReplication (automatic_encryption: "CustomerManagedEncryption option")

datatype Replica =
  Replica (Location: string) (replica_encryption: "CustomerManagedEncryption option")

datatype UserManagedReplication = UserManagedReplication (Replicas: "Replica list")

record Replication =
  Automatic :: "AutomaticReplication option"
  UserManaged :: "UserManagedReplication option"

text \<open>
  \<^verbatim>\<open>Secret\<close>. \<open>Versions\<close> is a Go map: \<open>None\<close> is the nil map (reading it finds nothing,
  deleting from it does nothing, assigning to it panics), \<open>Some vs\<close> an allocated one.
  \<open>Labels\<close> is only ever read, so its nil and empty map are both the empty map.
\<close>

record Secret =
  Name :: string
  CreateTime :: time
  Labels :: "string \<rightharpoonup> string"
  Replication :: Replication
  Etag :: string
  Versions :: "(string \<rightharpoonup> SecretVersion) option"
  VersionCount :: int

section \<open>Checksums (hash/crc32, crypto/sha256, fmt)\<close>

text \<open>
  \<^verbatim>\<open>crc32.ChecksumIEEE\<close> of the Go standard library, as its table-driven reference
  implementation computes it: the table entry of a byte is eight shift-and-xor steps with
  the reversed polynomial \<^verbatim>\<open>0xedb88320\<close>; the checksum starts from the complement of 0,
  folds each byte in through the table and complements the result.
\<close>

definition IEEE :: "32 word" where
  "IEEE = 0xedb88320"

definition crc_step :: "32 word \<Rightarrow> 32 word" where
  "crc_step crc = (if crc AND 1 = 1 then drop_bit 1 crc XOR IEEE else drop_bit 1 crc)"

definition simpleMakeTable :: "8 word \<Rightarrow> 32 word" where
  "simpleMakeTable i = (crc_step ^^ 8) (ucast i)"

definition simpleUpdate :: "32 word \<Rightarrow> byte list \<Rightarrow> 32 word" where
  "simpleUpdate crc p =
     NOT (foldl (\<lambda>c v. simpleMakeTable (ucast c XOR v) XOR drop_bit 8 c) (NOT crc) p)"

definition ChecksumIEEE :: "byte list \<Rightarrow> 32 word" where
  "ChecksumIEEE data = simpleUpdate 0 data"

text \<open>\<^verbatim>\<open>fmt.Sprintf("%08x", ...)\<close> of a 32-bit value and \<^verbatim>\<open>"%x"\<close> of a byte array.\<close>

definition hex_char :: "nat \<Rightarrow> char" where
  "hex_char d = ''0123456789abcdef'' ! d"

definition hex_byte :: "byte \<Rightarrow> string" where
  "hex_byte b = [hex_char (unat b div 16), hex_char (unat b mod 16)]"

definition hex_bytes :: "byte list \<Rightarrow> string" where
  "hex_bytes bs = concat (map hex_byte bs)"

definition be_bytes32 :: "32 word \<Rightarrow> byte list" where
  "be_bytes32 w = [ucast (drop_bit 24 w), ucast (drop_bit 16 w), ucast (drop_bit 8 w), ucast w]"

definition hex08 :: "32 word \<Rightarrow> string" where
  "hex08 w = hex_bytes (be_bytes32 w)"

text \<open>
  \<^verbatim>\<open>sha256.Sum256\<close> of the Go standard library is SHA-256 of FIPS 180-4: the message
  is padded to a multiple of 64 bytes, read as big-endian 32-bit words, and each block of
  16 words is expanded to 64 and folded into the eight-word hash value by 64 rounds.
\<close>

definition K256 :: "32 word list" where
  "K256 = [
    0x428A2F98, 0x71374491, 0xB5C0FBCF, 0xE9B5DBA5, 0x3956C25B, 0x59F111F1, 0x923F82A4, 0xAB1C5ED5,
    0xD807AA98, 0x12835B01, 0x243185BE, 0x550C7DC3, 0x72BE5D74, 0x80DEB1FE, 0x9BDC06A7, 0xC19BF174,
    0xE49B69C1, 0xEFBE4786, 0x0FC19DC6, 0x240CA1CC, 0x2DE92C6F, 0x4A7484AA, 0x5CB0A9DC, 0x76F988DA,
    0x983E5152, 0xA831C66D, 0xB00327C8, 0xBF597FC7, 0xC6E00BF3, 0xD5A79147, 0x06CA6351, 0x14292967,
    0x27B70A85, 0x2E1B2138, 0x4D2C6DFC, 0x53380D13, 0x650A7354, 0x766A0ABB, 0x81C2C92E, 0x92722C85,
    0xA2BFE8A1, 0xA81A664B, 0xC24B8B70, 0xC76C51A3, 0xD192E819, 0xD6990624, 0xF40E3585, 0x106AA070,
    0x19A4C116, 0x1E376C08, 0x2748774C, 0x34B0BCB5, 0x391C0CB3, 0x4ED8AA4A, 0x5B9CCA4F, 0x682E6FF3,
    0x748F82EE, 0x78A5636F, 0x84C87814, 0x8CC70208, 0x90BEFFFA, 0xA4506CEB, 0xBEF9A3F7, 0xC67178F2]"

definition sha256_init :: "32 word list" where
  "sha256_init = [0x6A09E667, 0xBB67AE85, 0x3C6EF372, 0xA54FF53A,
                  0x510E527F, 0x9B05688C, 0x1F83D9AB, 0x5BE0CD19]"

text \<open>Rotation to the right by \<open>n\<close> bits: the low \<open>n\<close> bits move to the top.\<close>

definition rotr :: "nat \<Rightarrow> 32 word \<Rightarrow> 32 word" where
  "rotr n x = drop_bit n x OR push_bit (32 - n) (take_bit n x)"

definition Ch :: "32 word \<Rightarrow> 32 word \<Rightarrow> 32 word \<Rightarrow> 32 word" where
  "Ch x y z = (x AND y) XOR (NOT x AND z)"

definition Maj :: "32 word \<Rightarrow> 32 word \<Rightarrow> 32 word \<Rightarrow> 32 word" where
  "Maj x y z = (x AND y) XOR (x AND z) XOR (y AND z)"

definition bsig0 :: "32 word \<Rightarrow> 32 word" where
  "bsig0 x = rotr 2 x XOR rotr 13 x XOR rotr 22 x"

definition bsig1 :: "32 word \<Rightarrow> 32 word" where
  "bsig1 x = rotr 6 x XOR rotr 11 x XOR rotr 25 x"

definition ssig0 :: "32 word \<Rightarrow> 32 word" where
  "ssig0 x = rotr 7 x XOR rotr 18 x XOR drop_bit 3 x"

definition ssig1 :: "32 word \<Rightarrow> 32 word" where
  "ssig1 x = rotr 17 x XOR rotr 19 x XOR drop_bit 10 x"

definition be_bytes64 :: "64 word \<Rightarrow> byte list" where
  "be_bytes64 w =
     [ucast (drop_bit 56 w), ucast (drop_bit 48 w), ucast (drop_bit 40 w), ucast (drop_bit 32 w),
      ucast (drop_bit 24 w), ucast (drop_bit 16 w), ucast (drop_bit 8 w), ucast w]"

definition sha256_pad :: "byte list \<Rightarrow> byte list" where
  "sha256_pad m =
     m @ [0x80] @ replicate ((119 - length m mod 64) mod 64) 0 @ be_bytes64 (word_of_nat (8 * length m))"

fun be_words :: "byte list \<Rightarrow> 32 word list" where
  "be_words (a # b # c # d # bs) =
     (push_bit 24 (ucast a) OR push_bit 16 (ucast b) OR push_bit 8 (ucast c) OR ucast d) # be_words bs"
| "be_words _ = []"

text \<open>
  The message schedule: word \<open>t\<close> is computed from the words \<open>t - 2\<close>, \<open>t - 7\<close>,
  \<open>t - 15\<close> and \<open>t - 16\<close>. \<open>expand n w\<close> yields the next \<open>n\<close> words after the window
  \<open>w\<close> of the last 16.
\<close>

fun expand :: "nat \<Rightarrow> 32 word list \<Rightarrow> 32 word list" where
  "expand 0 w = []"
| "expand (Suc n) w =
     (let x = ssig1 (w ! 14) + w ! 9 + ssig0 (w ! 1) + w ! 0
      in x # expand n (tl w @ [x]))"

definition schedule :: "32 word list \<Rightarrow> 32 word list" where
  "schedule block = block @ expand 48 block"

definition sha256_round :: "32 word list \<Rightarrow> 32 word \<times> 32 word \<Rightarrow> 32 word list" where
  "sha256_round s kw =
     (case s of
        [a, b, c, d, e, f, g, h] \<Rightarrow>
          (let t1 = h + bsig1 e + Ch e f g + fst kw + snd kw;
               t2 = bsig0 a + Maj a b c
           in [t1 + t2, a, b, c, d + t1, e, f, g])
      | _ \<Rightarrow> s)"

definition sha256_block :: "32 word list \<Rightarrow> 32 word list \<Rightarrow> 32 word list" where
  "sha256_block h block = map2 (+) h (foldl sha256_round h (zip K256 (schedule block)))"

fun sha256_blocks :: "32 word list \<Rightarrow> 32 word list \<Rightarrow> 32 word list" where
  "sha256_blocks h ws = (if length ws < 16 then h else sha256_blocks (sha256_block h (take 16 ws)) (drop 16 ws))"

declare sha256_blocks.simps [simp del]

definition Sum256 :: "byte list \<Rightarrow> byte list" where
  "Sum256 data = concat (map be_bytes32 (sha256_blocks sha256_init (be_words (sha256_pad data))))"

text \<open>\<^verbatim>\<open>generateChecksum\<close> (response.go).\<close>

definition generateChecksum :: "byte list \<Rightarrow> SecretVersionChecksum" where
  "generateChecksum data =
     \<lparr>Crc32c = hex08 (ChecksumIEEE data), Sha256 = hex_bytes (Sum256 data)\<rparr>"

section \<open>Constructors and accessors (package models)\<close>

text \<open>
  \<^verbatim>\<open>NewSecretVersion\<close> reads the clock and draws a random etag
  (\<^verbatim>\<open>generateEtag\<close> hashes the clock and \<^verbatim>\<open>rand.Int63\<close>); both are inputs of the
  model: \<open>now\<close> is what \<^verbatim>\<open>time.Now().UTC()\<close> returned and \<open>etag\<close> what
  \<^verbatim>\<open>generateEtag()\<close> returned.
\<close>

definition NewSecretVersion ::
  "string \<Rightarrow> string \<Rightarrow> string \<Rightarrow> byte list \<Rightarrow> time \<Rightarrow> string \<Rightarrow> SecretVersion" where
  "NewSecretVersion projectID secretID versionID data now etag =
     \<lparr>SecretVersion.Name =
        ''projects/'' @ projectID @ ''/secrets/'' @ secretID @ ''/versions/'' @ versionID,
      SecretVersion.CreateTime = now,
      State = StateEnabled,
      SecretVersion.Etag = etag,
      Data = data,
      Checksum = Some (generateChecksum data)\<rparr>"

definition NewSecret :: "string \<Rightarrow> string \<Rightarrow> (string \<rightharpoonup> string) \<Rightarrow> time \<Rightarrow> string \<Rightarrow> Secret" where
  "NewSecret projectID secretID labels now etag =
     \<lparr>Name = ''projects/'' @ projectID @ ''/secrets/'' @ secretID,
      CreateTime = now,
      Labels = labels,
      Replication = \<lparr>Automatic = Some (AutomaticReplication None), UserManaged = None\<rparr>,
      Etag = etag,
      Versions = Some Map.empty,
      VersionCount = 0\<rparr>"

text \<open>
  \<^verbatim>\<open>GetVersionID\<close>: the loop runs \<open>i\<close> from \<open>len(name) - 1\<close> down to 0 and returns
  what follows the first match of \<^verbatim>\<open>"/versions/"\<close> it meets, the empty string when it
  meets none. \<open>GetVersionID_loop name n\<close> is the loop with \<open>n\<close> positions left
  (\<open>i = n - 1\<close>).
\<close>

definition versionsPrefix :: string where
  "versionsPrefix = ''/versions/''"

fun GetVersionID_loop :: "string \<Rightarrow> nat \<Rightarrow> string" where
  "GetVersionID_loop name 0 = []"
| "GetVersionID_loop name (Suc i) =
     (if i + length versionsPrefix < length name
         \<and> take (length versionsPrefix) (drop i name) = versionsPrefix
      then drop (i + length versionsPrefix) name
      else GetVersionID_loop name i)"

definition GetVersionID :: "SecretVersion \<Rightarrow> string" where
  "GetVersionID v = GetVersionID_loop (SecretVersion.Name v) (length (SecretVersion.Name v))"

section \<open>The in-memory store (package storage)\<close>

datatype error =
    ErrSecretNotFound
  | ErrVersionNotFound
  | ErrSecretExists
  | PanicNilMap
  | PanicSliceBounds
  | ErrStorageFile string

text \<open>
  \<^verbatim>\<open>MemoryStorage\<close>. Every method takes \<^verbatim>\<open>m.mu\<close> on entry and releases it on return
  (\<^verbatim>\<open>defer\<close>), and none calls another while holding it, so a caller that runs the
  methods one after the other always finds the lock free: the sequential model leaves the
  lock out and keeps the map. The store holds pointers to the secrets; the handlers store
  a fresh \<^verbatim>\<open>NewSecret\<close> under each key and never write through a pointer they get
  back, so the map from keys to secret values is the whole state.
\<close>

record MemoryStorage =
  secrets :: "string \<rightharpoonup> Secret"

definition NewMemoryStorage :: MemoryStorage where
  "NewMemoryStorage = \<lparr>secrets = Map.empty\<rparr>"

definition secret_key :: "string \<Rightarrow> string \<Rightarrow> string" where
  "secret_key projectID secretID = projectID @ ''/'' @ secretID"

definition CreateSecret ::
  "MemoryStorage \<Rightarrow> string \<Rightarrow> string \<Rightarrow> Secret \<Rightarrow> error option \<times> MemoryStorage" where
  "CreateSecret m projectID secretID secret =
     (let key = secret_key projectID secretID
      in if secrets m key \<noteq> None then (Some ErrSecretExists, m)
         else (None, m\<lparr>secrets := (secrets m)(key \<mapsto> secret)\<rparr>))"

definition GetSecret :: "MemoryStorage \<Rightarrow> string \<Rightarrow> string \<Rightarrow> error + Secret" where
  "GetSecret m projectID secretID =
     (case secrets m (secret_key projectID secretID) of
        None \<Rightarrow> Inl ErrSecretNotFound
      | Some secret \<Rightarrow> Inr secret)"

definition DeleteSecret ::
  "MemoryStorage \<Rightarrow> string \<Rightarrow> string \<Rightarrow> error option \<times> MemoryStorage" where
  "DeleteSecret m projectID secretID =
     (let key = secret_key projectID secretID
      in if secrets m key = None then (Some ErrSecretNotFound, m)
         else (None, m\<lparr>secrets := (secrets m)(key := None)\<rparr>))"

text \<open>
  \<^verbatim>\<open>AddSecretVersion\<close>. The counter is incremented before the version is stored, so
  when the version map is nil the assignment panics with the counter already changed.
\<close>

definition AddSecretVersion ::
  "MemoryStorage \<Rightarrow> string \<Rightarrow> string \<Rightarrow> byte list \<Rightarrow> time \<Rightarrow> string
     \<Rightarrow> (error + SecretVersion) \<times> MemoryStorage" where
  "AddSecretVersion m projectID secretID data now etag =
     (let key = secret_key projectID secretID
      in case secrets m key of
           None \<Rightarrow> (Inl ErrSecretNotFound, m)
         | Some secret \<Rightarrow>
             (let count = wrap64 (VersionCount secret + 1);
                  secret1 = secret\<lparr>VersionCount := count\<rparr>;
                  versionID = Itoa count;
                  version = NewSecretVersion projectID secretID versionID data now etag
              in case Versions secret1 of
                   None \<Rightarrow> (Inl PanicNilMap, m\<lparr>secrets := (secrets m)(key \<mapsto> secret1)\<rparr>)
                 | Some vs \<Rightarrow>
                     (Inr version,
                      m\<lparr>secrets := (secrets m)
                           (key \<mapsto> secret1\<lparr>Versions := Some (vs(versionID \<mapsto> version))\<rparr>)\<rparr>)))"

text \<open>Reading a Go map that is nil finds no entry.\<close>

definition lookup_version :: "Secret \<Rightarrow> string \<Rightarrow> SecretVersion option" where
  "lookup_version secret versionID =
     (case Versions secret of None \<Rightarrow> None | Some vs \<Rightarrow> vs versionID)"

definition GetSecretVersion ::
  "MemoryStorage \<Rightarrow> string \<Rightarrow> string \<Rightarrow> string \<Rightarrow> error + SecretVersion" where
  "GetSecretVersion m projectID secretID versionID =
     (case secrets m (secret_key projectID secretID) of
        None \<Rightarrow> Inl ErrSecretNotFound
      | Some secret \<Rightarrow>
          if versionID = ''latest'' \<and> VersionCount secret = 0 then Inl ErrVersionNotFound
          else (let versionID' =
                      (if versionID = ''latest'' then Itoa (VersionCount secret) else versionID)
                in case lookup_version secret versionID' of
                     None \<Rightarrow> Inl ErrVersionNotFound
                   | Some version \<Rightarrow> Inr version))"

definition DeleteSecretVersion ::
  "MemoryStorage \<Rightarrow> string \<Rightarrow> string \<Rightarrow> string \<Rightarrow> error option \<times> MemoryStorage" where
  "DeleteSecretVersion m projectID secretID versionID =
     (let key = secret_key projectID secretID
      in case secrets m key of
           None \<Rightarrow> (Some ErrSecretNotFound, m)
         | Some secret \<Rightarrow>
             (case Versions secret of
                None \<Rightarrow> (Some ErrVersionNotFound, m)
              | Some vs \<Rightarrow>
                  if vs versionID = None then (Some ErrVersionNotFound, m)
                  else (None,
                        m\<lparr>secrets := (secrets m)
                             (key \<mapsto> secret\<lparr>Versions := Some (vs(versionID := None))\<rparr>)\<rparr>)))"

definition AccessSecretVersion ::
  "MemoryStorage \<Rightarrow> string \<Rightarrow> string \<Rightarrow> string \<Rightarrow> error + byte list" where
  "AccessSecretVersion m projectID secretID versionID =
     (case GetSecretVersion m projectID secretID versionID of
        Inl err \<Rightarrow> Inl err
      | Inr version \<Rightarrow> Inr (Data version))"

text \<open>
  \<^verbatim>\<open>ListSecrets\<close>. The \<^verbatim>\<open>range\<close> over the Go map visits every key once, in an order
  the language leaves open: \<open>order\<close> is the order this call met, a list of the keys of
  the map without repeats. \<^verbatim>\<open>sort.Slice\<close> orders by name and promises nothing about
  secrets of equal name; \<open>sort_key\<close> is one sort that meets its contract, and the only
  one when the names differ.
\<close>

definition HasPrefix :: "string \<Rightarrow> string \<Rightarrow> bool" where
  "HasPrefix s prefix = (length prefix \<le> length s \<and> take (length prefix) s = prefix)"

definition range_secrets :: "MemoryStorage \<Rightarrow> string list \<Rightarrow> string \<Rightarrow> Secret list" where
  "range_secrets m order prefix =
     List.map_filter (\<lambda>key. if HasPrefix key prefix then secrets m key else None) order"

definition ListSecrets ::
  "MemoryStorage \<Rightarrow> string list \<Rightarrow> string \<Rightarrow> int \<Rightarrow> string \<Rightarrow> error + (Secret list \<times> string)" where
  "ListSecrets m order projectID pageSize pageToken =
     (let prefix = projectID @ ''/'';
          sorted_secrets = sort_key Secret.Name (range_secrets m order prefix);
          n = int (length sorted_secrets);
          start = (if pageToken \<noteq> []
                   then (case Atoi pageToken of
                           None \<Rightarrow> 0
                         | Some startIdx \<Rightarrow> if 0 \<le> startIdx \<and> startIdx < n then startIdx else 0)
                   else 0);
          pageSize' = (if pageSize \<le> 0 then 100 else pageSize);
          end0 = wrap64 (start + pageSize');
          end1 = (if end0 > n then n else end0)
      in if end1 < start then Inl PanicSliceBounds
         else Inr (take (nat (end1 - start)) (drop (nat start) sorted_secrets),
                   if end1 < n then Itoa end1 else []))"

text \<open>The keys of the store that \<^verbatim>\<open>ListSecrets\<close> takes to belong to a project.\<close>

definition scoped_keys :: "MemoryStorage \<Rightarrow> string \<Rightarrow> string set" where
  "scoped_keys m projectID = {key \<in> dom (secrets m). HasPrefix key (projectID @ ''/'')}"

section \<open>Snapshot persistence (persistence.go)\<close>

text \<open>
  \<^verbatim>\<open>sync.RWMutex\<close>, as one goroutine sees it. \<^verbatim>\<open>Lock\<close> returns once nobody holds the
  mutex, \<^verbatim>\<open>RLock\<close> once no writer holds it. The mutex is not reentrant: when the
  caller itself holds it, nobody is left to release it and the call never returns, which
  is the value \<open>None\<close>. Releasing a mutex that is not held is a fatal error of the Go
  runtime, \<open>None\<close> as well.
\<close>

datatype RWMutex = Unlocked | WriteLocked | ReadLocked nat

definition Lock :: "RWMutex \<Rightarrow> RWMutex option" where
  "Lock mu = (if mu = Unlocked then Some WriteLocked else None)"

definition Unlock :: "RWMutex \<Rightarrow> RWMutex option" where
  "Unlock mu = (if mu = WriteLocked then Some Unlocked else None)"

definition RLock :: "RWMutex \<Rightarrow> RWMutex option" where
  "RLock mu =
     (case mu of
        Unlocked \<Rightarrow> Some (ReadLocked 1)
      | ReadLocked n \<Rightarrow> Some (ReadLocked (Suc n))
      | WriteLocked \<Rightarrow> None)"

definition RUnlock :: "RWMutex \<Rightarrow> RWMutex option" where
  "RUnlock mu =
     (case mu of
        ReadLocked n \<Rightarrow> (if n = 0 then None else if n = 1 then Some Unlocked else Some (ReadLocked (n - 1)))
      | _ \<Rightarrow> None)"

text \<open>
  What \<^verbatim>\<open>encoding/json\<close> writes for a \<^verbatim>\<open>Secret\<close>: the fields with a JSON name.
  \<^verbatim>\<open>Versions\<close> and \<^verbatim>\<open>VersionCount\<close> are tagged \<^verbatim>\<open>json:"-"\<close>, which the encoder skips
  and the decoder leaves at the zero value (a nil map and 0).
\<close>

record SecretJSON =
  json_name :: string
  json_createTime :: time
  json_labels :: "string \<rightharpoonup> string"
  json_replication :: Replication
  json_etag :: string

definition Marshal_Secret :: "Secret \<Rightarrow> SecretJSON" where
  "Marshal_Secret secret =
     \<lparr>json_name = Secret.Name secret,
      json_createTime = Secret.CreateTime secret,
      json_labels = Labels secret,
      json_replication = Replication secret,
      json_etag = Secret.Etag secret\<rparr>"

definition Unmarshal_Secret :: "SecretJSON \<Rightarrow> Secret" where
  "Unmarshal_Secret j =
     \<lparr>Secret.Name = json_name j,
      Secret.CreateTime = json_createTime j,
      Labels = json_labels j,
      Replication = json_replication j,
      Secret.Etag = json_etag j,
      Versions = None,
      VersionCount = 0\<rparr>"

text \<open>\<^verbatim>\<open>Data\<close>, the persisted structure, and the JSON document it is written as.\<close>

record Data =
  Secrets :: "string \<rightharpoonup> Secret"
  Timestamp :: time
  Version :: string

record DataJSON =
  json_secrets :: "string \<rightharpoonup> SecretJSON"
  json_timestamp :: time
  json_version :: string

definition Marshal :: "Data \<Rightarrow> DataJSON" where
  "Marshal d =
     \<lparr>json_secrets = map_option Marshal_Secret \<circ> Secrets d,
      json_timestamp = Timestamp d,
      json_version = Version d\<rparr>"

definition Unmarshal :: "DataJSON \<Rightarrow> Data" where
  "Unmarshal j =
     \<lparr>Secrets = map_option Unmarshal_Secret \<circ> json_secrets j,
      Timestamp = json_timestamp j,
      Version = json_version j\<rparr>"

text \<open>
  The backing file: absent, present but unreadable, present with bytes that do not parse,
  or holding a document.
\<close>

datatype storage_file = NoFile | Unreadable | Malformed | Snapshot DataJSON

text \<open>
  \<^verbatim>\<open>PersistentStorage\<close>: the embedded \<^verbatim>\<open>MemoryStorage\<close>, the wrapper's own mutex
  \<^verbatim>\<open>p.mu\<close> (the selector \<^verbatim>\<open>p.mu\<close> names the wrapper's field, which hides the embedded
  one), and the file at \<^verbatim>\<open>filePath\<close>.
\<close>

record PersistentStorage =
  store :: MemoryStorage
  mu :: RWMutex
  backing :: storage_file

definition NewPersistentStorage :: "storage_file \<Rightarrow> PersistentStorage" where
  "NewPersistentStorage f = \<lparr>store = NewMemoryStorage, mu = Unlocked, backing = f\<rparr>"

text \<open>
  \<^verbatim>\<open>Load\<close>. The deferred \<^verbatim>\<open>p.mu.Unlock()\<close> runs at each return. \<open>None\<close>: the call does
  not return.
\<close>

definition Load :: "PersistentStorage \<Rightarrow> (error option \<times> PersistentStorage) option" where
  "Load p =
     (case Lock (mu p) of
        None \<Rightarrow> None
      | Some mu1 \<Rightarrow>
          (case backing p of
             NoFile \<Rightarrow>
               map_option (\<lambda>mu2. (None, p\<lparr>mu := mu2\<rparr>)) (Unlock mu1)
           | Unreadable \<Rightarrow>
               map_option
                 (\<lambda>mu2. (Some (ErrStorageFile ''failed to read storage file''), p\<lparr>mu := mu2\<rparr>))
                 (Unlock mu1)
           | Malformed \<Rightarrow>
               map_option
                 (\<lambda>mu2. (Some (ErrStorageFile ''failed to parse storage file''), p\<lparr>mu := mu2\<rparr>))
                 (Unlock mu1)
           | Snapshot j \<Rightarrow>
               (case Lock mu1 of
                  None \<Rightarrow> None
                | Some mu2 \<Rightarrow>
                    (case Unlock mu2 of
                       None \<Rightarrow> None
                     | Some mu3 \<Rightarrow>
                         map_option
                           (\<lambda>mu4. (None,
                                   p\<lparr>store := (store p)\<lparr>secrets := Secrets (Unmarshal j)\<rparr>,
                                     mu := mu4\<rparr>))
                           (Unlock mu3)))))"

text \<open>
  \<^verbatim>\<open>Save\<close>. \<open>now\<close> is the clock reading for the timestamp, \<open>writable\<close> whether
  \<^verbatim>\<open>os.WriteFile\<close> succeeds. \<^verbatim>\<open>json.MarshalIndent\<close> has no failing input among these
  structures.
\<close>

definition Save ::
  "PersistentStorage \<Rightarrow> time \<Rightarrow> bool \<Rightarrow> (error option \<times> PersistentStorage) option" where
  "Save p now writable =
     (case Lock (mu p) of
        None \<Rightarrow> None
      | Some mu1 \<Rightarrow>
          (case RLock mu1 of
             None \<Rightarrow> None
           | Some mu2 \<Rightarrow>
               (let storageData =
                      \<lparr>Secrets = secrets (store p), Timestamp = now, Version = ''1.0.0''\<rparr>
                in case RUnlock mu2 of
                     None \<Rightarrow> None
                   | Some mu3 \<Rightarrow>
                       if writable
                       then map_option
                              (\<lambda>mu4. (None, p\<lparr>mu := mu4, backing := Snapshot (Marshal storageData)\<rparr>))
                              (Unlock mu3)
                       else map_option
                              (\<lambda>mu4. (Some (ErrStorageFile ''failed to write storage file''),
                                      p\<lparr>mu := mu4\<rparr>))
                              (Unlock mu3))))"

text \<open>
  The block of the wrapper's \<^verbatim>\<open>AddSecretVersion\<close> that runs when \<^verbatim>\<open>Save\<close> has returned
  an error: under \<^verbatim>\<open>p.mu\<close>, delete the version from the secret's map and decrement the
  counter. Deleting from a nil map does nothing.
\<close>

definition rollback ::
  "PersistentStorage \<Rightarrow> string \<Rightarrow> string \<Rightarrow> SecretVersion \<Rightarrow> PersistentStorage option" where
  "rollback p projectID secretID version =
     (case Lock (mu p) of
        None \<Rightarrow> None
      | Some mu1 \<Rightarrow>
          (let key = secret_key projectID secretID;
               st = (case secrets (store p) key of
                       None \<Rightarrow> store p
                     | Some secret \<Rightarrow>
                         (store p)\<lparr>secrets := (secrets (store p))
                           (key \<mapsto> secret
                              \<lparr>Versions :=
                                 map_option (\<lambda>vs. vs(GetVersionID version := None)) (Versions secret),
                               VersionCount := wrap64 (VersionCount secret - 1)\<rparr>)\<rparr>)
           in map_option (\<lambda>mu2. p\<lparr>store := st, mu := mu2\<rparr>) (Unlock mu1)))"

text \<open>
  The wrapper's methods: the in-memory operation, then \<^verbatim>\<open>Save\<close>. A panic of the
  in-memory operation passes through the wrapper. \<open>save_now\<close> and \<open>writable\<close> are the
  clock reading and the outcome of the write that the call of \<^verbatim>\<open>Save\<close> would meet.
\<close>

definition Persistent_CreateSecret ::
  "PersistentStorage \<Rightarrow> string \<Rightarrow> string \<Rightarrow> Secret \<Rightarrow> time \<Rightarrow> bool
     \<Rightarrow> (error option \<times> PersistentStorage) option" where
  "Persistent_CreateSecret p projectID secretID secret now writable =
     (case CreateSecret (store p) projectID secretID secret of
        (Some err, st) \<Rightarrow> Some (Some err, p\<lparr>store := st\<rparr>)
      | (None, st) \<Rightarrow> Save (p\<lparr>store := st\<rparr>) now writable)"

definition Persistent_DeleteSecret ::
  "PersistentStorage \<Rightarrow> string \<Rightarrow> string \<Rightarrow> time \<Rightarrow> bool
     \<Rightarrow> (error option \<times> PersistentStorage) option" where
  "Persistent_DeleteSecret p projectID secretID now writable =
     (case DeleteSecret (store p) projectID secretID of
        (Some err, st) \<Rightarrow> Some (Some err, p\<lparr>store := st\<rparr>)
      | (None, st) \<Rightarrow> Save (p\<lparr>store := st\<rparr>) now writable)"

definition Persistent_AddSecretVersion ::
  "PersistentStorage \<Rightarrow> string \<Rightarrow> string \<Rightarrow> byte list \<Rightarrow> time \<Rightarrow> string \<Rightarrow> time \<Rightarrow> bool
     \<Rightarrow> ((error + SecretVersion) \<times> PersistentStorage) option" where
  "Persistent_AddSecretVersion p projectID secretID data now etag save_now writable =
     (case AddSecretVersion (store p) projectID secretID data now etag of
        (Inl err, st) \<Rightarrow> Some (Inl err, p\<lparr>store := st\<rparr>)
      | (Inr version, st) \<Rightarrow>
          (case Save (p\<lparr>store := st\<rparr>) save_now writable of
             None \<Rightarrow> None
           | Some (Some err, p1) \<Rightarrow>
               map_option (\<lambda>p2. (Inl err, p2)) (rollback p1 projectID secretID version)
           | Some (None, p1) \<Rightarrow> Some (Inr version, p1)))"

definition Persistent_DeleteSecretVersion ::
  "PersistentStorage \<Rightarrow> string \<Rightarrow> string \<Rightarrow> string \<Rightarrow> time \<Rightarrow> bool
     \<Rightarrow> (error option \<times> PersistentStorage) option" where
  "Persistent_DeleteSecretVersion p projectID secretID versionID now writable =
     (case DeleteSecretVersion (store p) projectID secretID versionID of
        (Some err, st) \<Rightarrow> Some (Some err, p\<lparr>store := st\<rparr>)
      | (None, st) \<Rightarrow> Save (p\<lparr>store := st\<rparr>) now writable)"

definition Persistent_Close ::
  "PersistentStorage \<Rightarrow> time \<Rightarrow> bool \<Rightarrow> (error option \<times> PersistentStorage) option" where
  "Persistent_Close p now writable = Save p now writable"

section \<open>Sequences of calls\<close>

text \<open>
  \<open>add_versions\<close> calls \<^verbatim>\<open>AddSecretVersion\<close> on one secret once per element of the list,
  each call with its payload, clock reading and etag, and collects what the calls return.
\<close>

fun add_versions ::
  "MemoryStorage \<Rightarrow> string \<Rightarrow> string \<Rightarrow> (byte list \<times> time \<times> string) list
     \<Rightarrow> (error + SecretVersion) list \<times> MemoryStorage" where
  "add_versions m projectID secretID [] = ([], m)"
| "add_versions m projectID secretID ((data, now, etag) # calls) =
     (case AddSecretVersion m projectID secretID data now etag of
        (r, m1) \<Rightarrow>
          (case add_versions m1 projectID secretID calls of
             (rs, m2) \<Rightarrow> (r # rs, m2)))"

text \<open>
  \<open>run_calls\<close> runs a list of \<^verbatim>\<open>AddSecretVersion\<close> and \<^verbatim>\<open>DeleteSecretVersion\<close> calls on
  one secret and collects the version-ids of the versions the additions returned.
\<close>

datatype version_call = AddVersion "byte list" time string | DeleteVersion string

fun run_calls ::
  "MemoryStorage \<Rightarrow> string \<Rightarrow> string \<Rightarrow> version_call list \<Rightarrow> string list \<times> MemoryStorage" where
  "run_calls m projectID secretID [] = ([], m)"
| "run_calls m projectID secretID (AddVersion data now etag # calls) =
     (case AddSecretVersion m projectID secretID data now etag of
        (Inl err, m1) \<Rightarrow> run_calls m1 projectID secretID calls
      | (Inr version, m1) \<Rightarrow>
          (case run_calls m1 projectID secretID calls of
             (ids, m2) \<Rightarrow> (GetVersionID version # ids, m2)))"
| "run_calls m projectID secretID (DeleteVersion versionID # calls) =
     run_calls (snd (DeleteSecretVersion m projectID secretID versionID)) projectID secretID calls"

text \<open>
  \<open>stored m key versionID\<close> is the version the store holds under a secret's key and a
  version-id. \<open>apply_call\<close> is one mutating call of the store as the HTTP handlers make
  it (a created secret is a fresh \<^verbatim>\<open>NewSecret\<close>); the result of the call is dropped and
  the store kept.
\<close>

definition stored :: "MemoryStorage \<Rightarrow> string \<Rightarrow> string \<Rightarrow> SecretVersion option" where
  "stored m key versionID =
     (case secrets m key of None \<Rightarrow> None | Some secret \<Rightarrow> lookup_version secret versionID)"

datatype store_call =
    CallCreateSecret string string "string \<rightharpoonup> string" time string
  | CallDeleteSecret string string
  | CallAddSecretVersion string string "byte list" time string
  | CallDeleteSecretVersion string string string

fun apply_call :: "MemoryStorage \<Rightarrow> store_call \<Rightarrow> MemoryStorage" where
  "apply_call m (CallCreateSecret projectID secretID labels now etag) =
     snd (CreateSecret m projectID secretID (NewSecret projectID secretID labels now etag))"
| "apply_call m (CallDeleteSecret projectID secretID) = snd (DeleteSecret m projectID secretID)"
| "apply_call m (CallAddSecretVersion projectID secretID data now etag) =
     snd (AddSecretVersion m projectID secretID data now etag)"
| "apply_call m (CallDeleteSecretVersion projectID secretID versionID) =
     snd (DeleteSecretVersion m projectID secretID versionID)"

definition count_adds :: "version_call list \<Rightarrow> int" where
  "count_adds calls =
     int (length (filter (\<lambda>c. case c of AddVersion _ _ _ \<Rightarrow> True | DeleteVersion _ \<Rightarrow> False) calls))"

section \<open>Concurrent calls of AddSecretVersion\<close>

text \<open>
  Goroutines that each run \<^verbatim>\<open>MemoryStorage.AddSecretVersion\<close> on the same secret of one
  store. A goroutine advances one statement at a time, and the scheduler may take the
  next step from any goroutine: a run is a list of goroutine numbers. The statements are

  \<^item> \<open>AtLock\<close>: \<^verbatim>\<open>m.mu.Lock()\<close>, which goes through only while nobody holds the mutex
    (a goroutine scheduled while it waits stays where it is);
  \<^item> \<open>AtLookup\<close>: \<^verbatim>\<open>secret, exists := m.secrets[key]\<close> and the return of
    \<^verbatim>\<open>ErrSecretNotFound\<close>;
  \<^item> \<open>AtRead\<close>, \<open>AtWrite\<close>: the read and the write of \<^verbatim>\<open>secret.VersionCount++\<close>;
  \<^item> \<open>AtItoa\<close>: \<^verbatim>\<open>versionID := strconv.Itoa(secret.VersionCount)\<close>;
  \<^item> \<open>AtStore\<close>: \<^verbatim>\<open>NewSecretVersion\<close> and \<^verbatim>\<open>secret.Versions[versionID] = version\<close>
    (a panic when the map is nil);
  \<^item> \<open>AtUnlock\<close>: the deferred \<^verbatim>\<open>m.mu.Unlock()\<close> and the return.

  The secret is reached through the pointer the lookup returned; as long as only these
  goroutines run, the map entry is never replaced, and the model reads the secret under
  its key. Every access to the shared store lies between \<^verbatim>\<open>Lock\<close> and \<^verbatim>\<open>Unlock\<close>, so the
  program has no data race and, by the Go memory model, behaves as some interleaving of
  these steps.
\<close>

datatype pc = AtLock | AtLookup | AtRead | AtWrite | AtItoa | AtStore | AtUnlock | Returned

record goroutine =
  at :: pc
  payload :: "byte list"
  clock :: time
  new_etag :: string
  counter_read :: int
  version_id :: string
  ret :: "(error + SecretVersion) option"

record system =
  shared :: MemoryStorage
  holder :: "nat option"
  count :: nat
  goroutines :: "nat \<Rightarrow> goroutine"

definition spawn :: "byte list \<times> time \<times> string \<Rightarrow> goroutine" where
  "spawn call =
     \<lparr>at = AtLock, payload = fst call, clock = fst (snd call), new_etag = snd (snd call),
      counter_read = 0, version_id = [], ret = None\<rparr>"

definition init :: "MemoryStorage \<Rightarrow> nat \<Rightarrow> (nat \<Rightarrow> byte list \<times> time \<times> string) \<Rightarrow> system" where
  "init m n calls = \<lparr>shared = m, holder = None, count = n, goroutines = (\<lambda>i. spawn (calls i))\<rparr>"

definition set_goroutine :: "system \<Rightarrow> nat \<Rightarrow> goroutine \<Rightarrow> system" where
  "set_goroutine c i g = c\<lparr>goroutines := (goroutines c)(i := g)\<rparr>"

definition set_secret :: "system \<Rightarrow> string \<Rightarrow> Secret \<Rightarrow> system" where
  "set_secret c key secret = c\<lparr>shared := (shared c)\<lparr>secrets := (secrets (shared c))(key \<mapsto> secret)\<rparr>\<rparr>"

definition step :: "string \<Rightarrow> string \<Rightarrow> system \<Rightarrow> nat \<Rightarrow> system" where
  "step projectID secretID c i =
     (let g = goroutines c i; key = secret_key projectID secretID
      in if count c \<le> i then c
         else (case at g of
            AtLock \<Rightarrow>
              (if holder c = None then set_goroutine (c\<lparr>holder := Some i\<rparr>) i (g\<lparr>at := AtLookup\<rparr>)
               else c)
          | AtLookup \<Rightarrow>
              (case secrets (shared c) key of
                 None \<Rightarrow> set_goroutine c i (g\<lparr>at := AtUnlock, ret := Some (Inl ErrSecretNotFound)\<rparr>)
               | Some secret \<Rightarrow> set_goroutine c i (g\<lparr>at := AtRead\<rparr>))
          | AtRead \<Rightarrow>
              (case secrets (shared c) key of
                 None \<Rightarrow> c
               | Some secret \<Rightarrow> set_goroutine c i (g\<lparr>at := AtWrite, counter_read := VersionCount secret\<rparr>))
          | AtWrite \<Rightarrow>
              (case secrets (shared c) key of
                 None \<Rightarrow> c
               | Some secret \<Rightarrow>
                   set_goroutine (set_secret c key (secret\<lparr>VersionCount := wrap64 (counter_read g + 1)\<rparr>))
                     i (g\<lparr>at := AtItoa\<rparr>))
          | AtItoa \<Rightarrow>
              (case secrets (shared c) key of
                 None \<Rightarrow> c
               | Some secret \<Rightarrow>
                   set_goroutine c i (g\<lparr>at := AtStore, version_id := Itoa (VersionCount secret)\<rparr>))
          | AtStore \<Rightarrow>
              (case secrets (shared c) key of
                 None \<Rightarrow> c
               | Some secret \<Rightarrow>
                   (let version = NewSecretVersion projectID secretID (version_id g)
                                    (payload g) (clock g) (new_etag g)
                    in case Versions secret of
                         None \<Rightarrow> set_goroutine c i (g\<lparr>at := AtUnlock, ret := Some (Inl PanicNilMap)\<rparr>)
                       | Some vs \<Rightarrow>
                           set_goroutine
                             (set_secret c key (secret\<lparr>Versions := Some (vs(version_id g \<mapsto> version))\<rparr>))
                             i (g\<lparr>at := AtUnlock, ret := Some (Inr version)\<rparr>)))
          | AtUnlock \<Rightarrow> set_goroutine (c\<lparr>holder := None\<rparr>) i (g\<lparr>at := Returned\<rparr>)
          | Returned \<Rightarrow> c))"

definition run :: "string \<Rightarrow> string \<Rightarrow> system \<Rightarrow> nat list \<Rightarrow> system" where
  "run projectID secretID c sched = foldl (step projectID secretID) c sched"

text \<open>The run in which each goroutine in turn takes its seven steps without a break.\<close>

definition one_after_the_other :: "nat \<Rightarrow> nat list" where
  "one_after_the_other n = concat (map (\<lambda>i. [i, i, i, i, i, i, i]) [0..<n])"

text \<open>
  The goroutines that have returned, the number a goroutine's version-id stands for, and
  the version-ids the returned goroutines received.
\<close>

definition returned :: "system \<Rightarrow> nat set" where
  "returned c = {i. i < count c \<and> at (goroutines c i) = Returned}"

definition id_of :: "system \<Rightarrow> nat \<Rightarrow> int" where
  "id_of c i = counter_read (goroutines c i) + 1"

definition received :: "system \<Rightarrow> nat \<Rightarrow> (error + string) option" where
  "received c i = map_option (map_sum id GetVersionID) (ret (goroutines c i))"

text \<open>
  What holds in every state the goroutines can reach from a store whose secret has counter
  \<open>c0\<close> and an allocated version map: only the holder of the mutex is between its
  \<^verbatim>\<open>Lock\<close> and its return; the goroutines that have returned received the ids
  \<open>c0 + 1, ...\<close> up to the last counter value whose goroutine has returned, each id once;
  and the holder's local variables agree with the counter.
\<close>

definition in_section :: "pc \<Rightarrow> bool" where
  "in_section a = (a \<noteq> AtLock \<and> a \<noteq> Returned)"

definition written :: "pc \<Rightarrow> bool" where
  "written a = (a = AtItoa \<or> a = AtStore \<or> a = AtUnlock)"

definition committed :: "system \<Rightarrow> Secret \<Rightarrow> int" where
  "committed c secret =
     (case holder c of
        None \<Rightarrow> VersionCount secret
      | Some h \<Rightarrow>
          if written (at (goroutines c h)) then VersionCount secret - 1 else VersionCount secret)"

definition holder_ok :: "system \<Rightarrow> Secret \<Rightarrow> nat \<Rightarrow> bool" where
  "holder_ok c secret h =
     ((at (goroutines c h) = AtWrite \<longrightarrow> counter_read (goroutines c h) = VersionCount secret)
      \<and> (written (at (goroutines c h)) \<longrightarrow> id_of c h = VersionCount secret)
      \<and> (at (goroutines c h) = AtStore \<longrightarrow> version_id (goroutines c h) = Itoa (VersionCount secret))
      \<and> (at (goroutines c h) = AtUnlock \<longrightarrow> received c h = Some (Inr (Itoa (id_of c h)))))"

definition invariant :: "string \<Rightarrow> int \<Rightarrow> system \<Rightarrow> bool" where
  "invariant key c0 c =
     (\<exists>secret vs.
        secrets (shared c) key = Some secret \<and> Versions secret = Some vs
      \<and> (\<forall>i < count c. in_section (at (goroutines c i)) = (holder c = Some i))
      \<and> (\<forall>h. holder c = Some h \<longrightarrow> h < count c \<and> holder_ok c secret h)
      \<and> inj_on (id_of c) (returned c)
      \<and> id_of c ` returned c = {c0 + 1 .. committed c secret}
      \<and> c0 \<le> committed c secret
      \<and> (\<forall>i \<in> returned c. received c i = Some (Inr (Itoa (id_of c i)))))"

section \<open>Concrete states\<close>

text \<open>The states the scenarios and the instances below start from.\<close>

definition abc :: "byte list" where
  "abc = [0x61, 0x62, 0x63]"

definition secret_p1_s1 :: Secret where
  "secret_p1_s1 = NewSecret ''p1'' ''s1'' Map.empty 1000 ''etag-s1''"

definition store_p1_s1 :: MemoryStorage where
  "store_p1_s1 = snd (CreateSecret NewMemoryStorage ''p1'' ''s1'' secret_p1_s1)"

text \<open>The same secret after two calls of \<^verbatim>\<open>AddSecretVersion\<close> with payload \<open>abc\<close>.\<close>

definition two_calls :: "(byte list \<times> time \<times> string) list" where
  "two_calls = [(abc, 1001, ''etag-v1''), (abc, 1002, ''etag-v2'')]"

definition version_1 :: SecretVersion where
  "version_1 = NewSecretVersion ''p1'' ''s1'' ''1'' abc 1001 ''etag-v1''"

definition version_2 :: SecretVersion where
  "version_2 = NewSecretVersion ''p1'' ''s1'' ''2'' abc 1002 ''etag-v2''"

definition secret_two_versions :: Secret where
  "secret_two_versions =
     secret_p1_s1\<lparr>VersionCount := 2, Versions := Some [''1'' \<mapsto> version_1, ''2'' \<mapsto> version_2]\<rparr>"

definition store_two_versions :: MemoryStorage where
  "store_two_versions = \<lparr>secrets = [''p1/s1'' \<mapsto> secret_two_versions]\<rparr>"

definition later_calls :: "version_call list" where
  "later_calls = [AddVersion abc 1003 ''etag-v3'', DeleteVersion ''3'', AddVersion abc 1004 ''etag-v4'']"

text \<open>A store holding a version in state \<^verbatim>\<open>DISABLED\<close>, which no call of the store produces.\<close>

definition disabled_version :: SecretVersion where
  "disabled_version = version_1\<lparr>State := StateDisabled\<rparr>"

definition store_disabled :: MemoryStorage where
  "store_disabled =
     \<lparr>secrets = [''p1/s1'' \<mapsto>
        secret_p1_s1\<lparr>VersionCount := 1, Versions := Some [''1'' \<mapsto> disabled_version]\<rparr>]\<rparr>"

definition some_calls :: "store_call list" where
  "some_calls =
     [CallCreateSecret ''p1'' ''s1'' Map.empty 1000 ''etag-s1'',
      CallAddSecretVersion ''p1'' ''s1'' abc 1001 ''etag-v1'',
      CallAddSecretVersion ''p1'' ''s1'' abc 1002 ''etag-v2'',
      CallDeleteSecretVersion ''p1'' ''s1'' ''1'']"

text \<open>
  A store with five secrets of project \<open>p1\<close> and one of project \<open>p2\<close>, and three orders
  in which a \<^verbatim>\<open>range\<close> may visit its keys.
\<close>

definition p1_secret :: "string \<Rightarrow> Secret" where
  "p1_secret secretID = NewSecret ''p1'' secretID Map.empty 1000 ''etag''"

definition store_five :: MemoryStorage where
  "store_five =
     \<lparr>secrets = [''p1/a'' \<mapsto> p1_secret ''a'', ''p1/b'' \<mapsto> p1_secret ''b'',
                  ''p1/c'' \<mapsto> p1_secret ''c'', ''p1/d'' \<mapsto> p1_secret ''d'',
                  ''p1/e'' \<mapsto> p1_secret ''e'',
                  ''p2/z'' \<mapsto> NewSecret ''p2'' ''z'' Map.empty 1000 ''etag'']\<rparr>"

definition order_1 :: "string list" where
  "order_1 = [''p1/c'', ''p2/z'', ''p1/a'', ''p1/e'', ''p1/b'', ''p1/d'']"

definition order_2 :: "string list" where
  "order_2 = [''p1/d'', ''p1/b'', ''p1/e'', ''p1/a'', ''p2/z'', ''p1/c'']"

definition order_3 :: "string list" where
  "order_3 = [''p1/e'', ''p1/d'', ''p1/c'', ''p1/b'', ''p1/a'', ''p2/z'']"

text \<open>Persistent stores over the fresh secret and over the secret with two versions.\<close>

definition persistent_p1_s1 :: PersistentStorage where
  "persistent_p1_s1 = \<lparr>store = store_p1_s1, mu = Unlocked, backing = NoFile\<rparr>"

definition persistent_two_versions :: PersistentStorage where
  "persistent_two_versions = \<lparr>store = store_two_versions, mu = Unlocked, backing = NoFile\<rparr>"

text \<open>
  Two goroutines on the fresh secret, and a run in which they alternate: goroutine 1 is
  scheduled while goroutine 0 holds the mutex and has to wait.
\<close>

definition two_goroutines :: "nat \<Rightarrow> byte list \<times> time \<times> string" where
  "two_goroutines i = (abc, 1001 + int i, ''etag-g'')"

definition interleaved :: "nat list" where
  "interleaved = [0, 1, 0, 1, 0, 0, 1, 0, 0, 1, 0, 1, 1, 1, 1, 1, 1, 1]"

section \<open>Properties\<close>

subsection \<open>Decimal strings\<close>

lemma digit_char_in: "d < 10 \<Longrightarrow> digit_char d \<in> set ''0123456789''"
  unfolding digit_char_def by (rule nth_mem) simp

lemma digit_val_digit_char: "d < 10 \<Longrightarrow> digit_val (digit_char d) = Some d"
proof -
  assume "d < 10"
  then have "d \<in> {0,1,2,3,4,5,6,7,8,9}" by auto
  then show ?thesis
    by (auto simp: digit_val_def digit_char_def)
qed

lemma uitoa_nonempty: "uitoa n \<noteq> []"
  by (subst uitoa.simps) simp

lemma set_uitoa: "set (uitoa n) \<subseteq> set ''0123456789''"
proof (induction n rule: uitoa.induct)
  case (1 n)
  show ?case
  proof (cases "n < 10")
    case True
    then show ?thesis
      using digit_char_in [of n] by (subst uitoa.simps) simp
  next
    case False
    have "n mod 10 < 10" by simp
    then have "digit_char (n mod 10) \<in> set ''0123456789''" by (rule digit_char_in)
    with False 1 show ?thesis
      by (subst uitoa.simps) simp
  qed
qed

lemma parse_digits_append:
  "parse_digits (xs @ ys) acc =
     (case parse_digits xs acc of None \<Rightarrow> None | Some a \<Rightarrow> parse_digits ys a)"
  by (induction xs arbitrary: acc) (auto split: option.splits)

lemma parse_digits_uitoa: "parse_digits (uitoa n) 0 = Some n"
proof (induction n rule: uitoa.induct)
  case (1 n)
  show ?case
  proof (cases "n < 10")
    case True
    then show ?thesis
      by (subst uitoa.simps) (simp add: digit_val_digit_char)
  next
    case False
    have "digit_val (digit_char (n mod 10)) = Some (n mod 10)"
      by (rule digit_val_digit_char) simp
    with False 1 show ?thesis
      by (subst uitoa.simps) (simp add: parse_digits_append)
  qed
qed

lemma uitoa_inj: "uitoa a = uitoa b \<Longrightarrow> a = b"
  by (metis parse_digits_uitoa option.inject)

lemma hd_uitoa_digit: "hd (uitoa n) \<in> set ''0123456789''"
  using set_uitoa [of n] uitoa_nonempty [of n] by (meson hd_in_set subsetD)

lemma hd_uitoa_not_minus: "hd (uitoa n) \<noteq> CHR ''-''"
  using hd_uitoa_digit [of n] by auto

lemma Itoa_inj: "Itoa i = Itoa j \<Longrightarrow> i = j"
proof -
  assume eq: "Itoa i = Itoa j"
  have neg: "\<And>a b. CHR ''-'' # uitoa a \<noteq> uitoa b"
    using hd_uitoa_not_minus by (metis list.sel(1))
  show ?thesis
  proof (cases "i < 0"; cases "j < 0")
    assume "i < 0" "j < 0"
    with eq have "nat (- i) = nat (- j)" by (simp add: Itoa_def uitoa_inj)
    with \<open>i < 0\<close> \<open>j < 0\<close> show ?thesis by simp
  next
    assume "i < 0" "\<not> j < 0"
    with eq neg show ?thesis by (simp add: Itoa_def)
  next
    assume "\<not> i < 0" "j < 0"
    with eq neg [of "nat (- j)" "nat i"] show ?thesis by (simp add: Itoa_def)
  next
    assume "\<not> i < 0" "\<not> j < 0"
    with eq have "nat i = nat j" by (simp add: Itoa_def uitoa_inj)
    with \<open>\<not> i < 0\<close> \<open>\<not> j < 0\<close> show ?thesis by simp
  qed
qed

lemma Itoa_nonempty: "Itoa i \<noteq> []"
  by (simp add: Itoa_def uitoa_nonempty)

lemma Itoa_no_slash: "CHR ''/'' \<notin> set (Itoa i)"
  using set_uitoa by (auto simp: Itoa_def)

lemma Atoi_Itoa: "0 \<le> n \<Longrightarrow> n \<le> MaxInt64 \<Longrightarrow> Atoi (Itoa n) = Some n"
  using hd_uitoa_digit [of "nat n"] uitoa_nonempty [of "nat n"]
  by (auto simp: Atoi_def Itoa_def parse_digits_uitoa Let_def MaxInt64_def)

subsection \<open>Version names\<close>

lemma versionsPrefix_length: "length versionsPrefix = 10"
  by (simp add: versionsPrefix_def)

lemma versionsPrefix_last: "versionsPrefix ! 9 = CHR ''/''"
  by (simp add: versionsPrefix_def)

lemma GetVersionID_loop_found:
  assumes "d \<noteq> []" and "CHR ''/'' \<notin> set d"
  shows "GetVersionID_loop (pre @ versionsPrefix @ d) (Suc (length pre) + n) = d"
proof (induction n)
  case 0
  from assms(1) show ?case by (simp add: versionsPrefix_length)
next
  case (Suc n)
  define name where "name = pre @ versionsPrefix @ d"
  define i where "i = Suc (length pre) + n"
  have len: "length name = length pre + 10 + length d"
    by (simp add: name_def versionsPrefix_length)
  have "\<not> (i + length versionsPrefix < length name
          \<and> take (length versionsPrefix) (drop i name) = versionsPrefix)"
  proof
    assume a: "i + length versionsPrefix < length name
          \<and> take (length versionsPrefix) (drop i name) = versionsPrefix"
    then have n: "n < length d"
      by (simp add: len i_def versionsPrefix_length)
    from a have "i \<le> length name" by simp
    then have "take 10 (drop i name) ! 9 = name ! (i + 9)"
      by simp
    moreover from a have "take 10 (drop i name) ! 9 = versionsPrefix ! 9"
      by (simp add: versionsPrefix_length)
    moreover have "i + 9 = length pre + (length versionsPrefix + n)"
      by (simp add: i_def versionsPrefix_length)
    moreover have "name ! (length pre + (length versionsPrefix + n)) = d ! n"
      unfolding name_def by (simp only: nth_append_length_plus)
    ultimately have "d ! n = CHR ''/''"
      by (simp only: versionsPrefix_last)
    with n have "CHR ''/'' \<in> set d" by (metis nth_mem)
    with assms(2) show False by simp
  qed
  then have "GetVersionID_loop name (Suc i) = GetVersionID_loop name i"
    by (simp only: GetVersionID_loop.simps if_False)
  with Suc show ?case by (simp add: name_def i_def)
qed

lemma GetVersionID_NewSecretVersion:
  "GetVersionID (NewSecretVersion p s (Itoa k) data now etag) = Itoa k"
proof -
  define pre where "pre = ''projects/'' @ p @ ''/secrets/'' @ s"
  have "GetVersionID_loop (pre @ versionsPrefix @ Itoa k) (Suc (length pre) + (9 + length (Itoa k))) = Itoa k"
    by (rule GetVersionID_loop_found [OF Itoa_nonempty Itoa_no_slash])
  moreover have "length (pre @ versionsPrefix @ Itoa k) = Suc (length pre) + (9 + length (Itoa k))"
    by (simp add: versionsPrefix_length)
  moreover have "SecretVersion.Name (NewSecretVersion p s (Itoa k) data now etag) = pre @ versionsPrefix @ Itoa k"
    by (simp add: NewSecretVersion_def pre_def versionsPrefix_def)
  ultimately show ?thesis
    by (simp only: GetVersionID_def)
qed

subsection \<open>Creating a secret\<close>

text \<open>
  C7: \<^verbatim>\<open>CreateSecret\<close> on a key that is present returns \<^verbatim>\<open>ErrSecretExists\<close> and leaves
  the store as it was: the secret stored under the key is still the old one, and nothing
  else has changed.
\<close>

theorem CreateSecret_existing_key:
  assumes "secrets m (secret_key projectID secretID) = Some old"
  shows "CreateSecret m projectID secretID secret = (Some ErrSecretExists, m)
         \<and> GetSecret (snd (CreateSecret m projectID secretID secret)) projectID secretID = Inr old"
  using assms by (simp add: CreateSecret_def GetSecret_def)

lemma store_p1_s1_secrets: "secrets store_p1_s1 = [''p1/s1'' \<mapsto> secret_p1_s1]"
  by (simp add: store_p1_s1_def CreateSecret_def NewMemoryStorage_def secret_key_def)

theorem CreateSecret_existing_key_witness:
  "secrets store_p1_s1 (secret_key ''p1'' ''s1'') = Some secret_p1_s1
   \<and> CreateSecret store_p1_s1 ''p1'' ''s1'' (NewSecret ''p1'' ''s1'' Map.empty 2000 ''etag-x'')
       = (Some ErrSecretExists, store_p1_s1)
   \<and> GetSecret
         (snd (CreateSecret store_p1_s1 ''p1'' ''s1'' (NewSecret ''p1'' ''s1'' Map.empty 2000 ''etag-x'')))
         ''p1'' ''s1'' = Inr secret_p1_s1"
proof -
  have h: "secrets store_p1_s1 (secret_key ''p1'' ''s1'') = Some secret_p1_s1"
    by (simp add: store_p1_s1_secrets secret_key_def)
  show ?thesis
    by (rule conjI [OF h CreateSecret_existing_key [OF h]])
qed

subsection \<open>Versions of one secret\<close>

lemma wrap64_id: "- (2 ^ 63) \<le> i \<Longrightarrow> i \<le> MaxInt64 \<Longrightarrow> wrap64 i = i"
  by (simp add: wrap64_def MaxInt64_def)

lemma wrap64_Suc: "0 \<le> c \<Longrightarrow> c < MaxInt64 \<Longrightarrow> wrap64 (c + 1) = c + 1"
  by (rule wrap64_id) (simp_all add: MaxInt64_def)

lemma wrap64_pred: "0 \<le> c \<Longrightarrow> c < MaxInt64 \<Longrightarrow> wrap64 (c + 1 - 1) = c"
  by (simp add: wrap64_id MaxInt64_def)

lemma AddSecretVersion_found:
  assumes "secrets m (secret_key p s) = Some secret" and "Versions secret = Some vs"
  shows "AddSecretVersion m p s data now etag =
           (Inr (NewSecretVersion p s (Itoa (wrap64 (VersionCount secret + 1))) data now etag),
            m\<lparr>secrets := (secrets m)
                 (secret_key p s \<mapsto>
                    secret\<lparr>VersionCount := wrap64 (VersionCount secret + 1),
                           Versions := Some (vs(Itoa (wrap64 (VersionCount secret + 1)) \<mapsto>
                              NewSecretVersion p s (Itoa (wrap64 (VersionCount secret + 1))) data now etag))\<rparr>)\<rparr>)"
  using assms by (simp add: AddSecretVersion_def Let_def)

lemma DeleteSecretVersion_ok:
  assumes "secrets m (secret_key p s) = Some secret"
    and "DeleteSecretVersion m p s vid = (None, m')"
  shows "\<exists>vs. Versions secret = Some vs \<and> vs vid \<noteq> None
           \<and> m' = m\<lparr>secrets := (secrets m)
                      (secret_key p s \<mapsto> secret\<lparr>Versions := Some (vs(vid := None))\<rparr>)\<rparr>"
  using assms by (auto simp: DeleteSecretVersion_def Let_def split: option.splits if_splits)

lemma DeleteSecretVersion_failed:
  assumes "DeleteSecretVersion m p s vid = (Some err, m')"
  shows "m' = m"
  using assms by (auto simp: DeleteSecretVersion_def Let_def split: option.splits if_splits)

lemma DeleteSecretVersion_counter:
  assumes "secrets m (secret_key p s) = Some secret" and "Versions secret \<noteq> None"
  shows "\<exists>secret'. secrets (snd (DeleteSecretVersion m p s vid)) (secret_key p s) = Some secret'
           \<and> VersionCount secret' = VersionCount secret \<and> Versions secret' \<noteq> None"
  using assms by (auto simp: DeleteSecretVersion_def Let_def split: option.splits)

text \<open>
  C5: when the version whose id is the secret's counter value has been deleted,
  \<^verbatim>\<open>GetSecretVersion\<close> with the id \<open>latest\<close> still resolves to that id, finds nothing
  there and returns \<^verbatim>\<open>ErrVersionNotFound\<close>, whatever other versions the secret holds; the
  counter is what it was.
\<close>

theorem latest_after_deleting_highest:
  assumes "secrets m (secret_key projectID secretID) = Some secret"
    and "DeleteSecretVersion m projectID secretID (Itoa (VersionCount secret)) = (None, m')"
  shows "GetSecretVersion m' projectID secretID ''latest'' = Inl ErrVersionNotFound
         \<and> GetSecretVersion m' projectID secretID (Itoa (VersionCount secret)) = Inl ErrVersionNotFound
         \<and> map_option VersionCount (secrets m' (secret_key projectID secretID))
             = Some (VersionCount secret)"
proof -
  from DeleteSecretVersion_ok [OF assms] obtain vs where
    m': "m' = m\<lparr>secrets := (secrets m)
                 (secret_key projectID secretID \<mapsto>
                    secret\<lparr>Versions := Some (vs(Itoa (VersionCount secret) := None))\<rparr>)\<rparr>"
    by blast
  show ?thesis
    unfolding m' by (simp add: GetSecretVersion_def lookup_version_def Let_def)
qed


lemma count_adds_simps:
  "count_adds [] = 0"
  "count_adds (AddVersion d n e # calls) = 1 + count_adds calls"
  "count_adds (DeleteVersion vid # calls) = count_adds calls"
  by (simp_all add: count_adds_def)

lemma count_adds_nonneg: "0 \<le> count_adds calls"
  by (simp add: count_adds_def)

lemma run_calls_Add:
  assumes "AddSecretVersion m p s data now etag = (Inr v, m1)"
  shows "run_calls m p s (AddVersion data now etag # calls)
           = (GetVersionID v # fst (run_calls m1 p s calls), snd (run_calls m1 p s calls))"
  using assms by (simp split: prod.splits)

lemma run_calls_ids:
  assumes "secrets m (secret_key p s) = Some secret" and "Versions secret \<noteq> None"
    and "0 \<le> VersionCount secret"
    and "VersionCount secret + count_adds calls \<le> MaxInt64"
  shows "fst (run_calls m p s calls)
           = map Itoa [VersionCount secret + 1 .. VersionCount secret + count_adds calls]
         \<and> (\<exists>secret'. secrets (snd (run_calls m p s calls)) (secret_key p s) = Some secret'
               \<and> VersionCount secret' = VersionCount secret + count_adds calls
               \<and> Versions secret' \<noteq> None)"
  using assms
proof (induction calls arbitrary: m secret)
  case Nil
  then show ?case by (simp add: count_adds_simps)
next
  case (Cons call calls)
  show ?case
  proof (cases call)
    case (AddVersion data now etag)
    from Cons.prems(2) obtain vs where vs: "Versions secret = Some vs" by auto
    define c where "c = VersionCount secret"
    have bound: "c + 1 + count_adds calls \<le> MaxInt64"
      using Cons.prems(4) AddVersion by (simp add: count_adds_simps c_def)
    then have lt: "c < MaxInt64" using count_adds_nonneg [of calls] by linarith
    have w: "wrap64 (VersionCount secret + 1) = c + 1"
      using wrap64_Suc [of c] Cons.prems(3) lt by (simp add: c_def)
    define v where "v = NewSecretVersion p s (Itoa (c + 1)) data now etag"
    define secret1 where
      "secret1 = secret\<lparr>VersionCount := c + 1, Versions := Some (vs(Itoa (c + 1) \<mapsto> v))\<rparr>"
    define m1 where "m1 = m\<lparr>secrets := (secrets m)(secret_key p s \<mapsto> secret1)\<rparr>"
    have add: "AddSecretVersion m p s data now etag = (Inr v, m1)"
      using AddSecretVersion_found [OF Cons.prems(1) vs, of data now etag]
      by (simp add: w v_def secret1_def m1_def)
    have s1: "secrets m1 (secret_key p s) = Some secret1" by (simp add: m1_def)
    have s1v: "Versions secret1 \<noteq> None" by (simp add: secret1_def)
    have s1c: "VersionCount secret1 = c + 1" by (simp add: secret1_def)
    have ih: "fst (run_calls m1 p s calls) = map Itoa [c + 1 + 1 .. c + 1 + count_adds calls]
         \<and> (\<exists>secret'. secrets (snd (run_calls m1 p s calls)) (secret_key p s) = Some secret'
               \<and> VersionCount secret' = c + 1 + count_adds calls
               \<and> Versions secret' \<noteq> None)"
      using Cons.IH [OF s1 s1v] Cons.prems(3) bound by (simp add: s1c c_def)
    have id: "GetVersionID v = Itoa (c + 1)"
      unfolding v_def by (rule GetVersionID_NewSecretVersion)
    have upto: "[c + 1 .. c + (1 + count_adds calls)] = (c + 1) # [c + 1 + 1 .. c + 1 + count_adds calls]"
      using count_adds_nonneg [of calls] by (subst upto_rec1) (simp_all add: add.assoc)
    show ?thesis
      using ih unfolding AddVersion run_calls_Add [OF add]
      by (simp add: id count_adds_simps upto add.assoc flip: c_def)
  next
    case (DeleteVersion vid)
    from DeleteSecretVersion_counter [OF Cons.prems(1,2), of vid] obtain secret' where
      s': "secrets (snd (DeleteSecretVersion m p s vid)) (secret_key p s) = Some secret'"
      and c': "VersionCount secret' = VersionCount secret" and v': "Versions secret' \<noteq> None"
      by blast
    show ?thesis
      using Cons.IH [OF s' v'] Cons.prems(3,4)
      by (simp add: DeleteVersion c' count_adds_simps)
  qed
qed


lemma Itoa_small: "Itoa 0 = ''0''" "Itoa 1 = ''1''" "Itoa 2 = ''2''" "Itoa 3 = ''3''" "Itoa 4 = ''4''"
  by code_simp+

lemma store_p1_s1_eq: "store_p1_s1 = \<lparr>secrets = [''p1/s1'' \<mapsto> secret_p1_s1]\<rparr>"
  by (simp add: store_p1_s1_def CreateSecret_def NewMemoryStorage_def secret_key_def)

lemma store_two_versions_reached:
  "add_versions store_p1_s1 ''p1'' ''s1'' two_calls = ([Inr version_1, Inr version_2], store_two_versions)"
proof -
  have w: "wrap64 1 = 1" "wrap64 2 = 2" by (simp_all add: wrap64_def)
  show ?thesis
    by (simp add: two_calls_def store_p1_s1_eq AddSecretVersion_def secret_key_def Let_def
        secret_p1_s1_def NewSecret_def w Itoa_small version_1_def version_2_def
        store_two_versions_def secret_two_versions_def)
qed


lemma store_two_versions_secret:
  "secrets store_two_versions (secret_key ''p1'' ''s1'') = Some secret_two_versions"
  by (simp add: store_two_versions_def secret_key_def)

lemma secret_two_versions_count: "VersionCount secret_two_versions = 2"
  by (simp add: secret_two_versions_def)

lemma delete_2_of_two:
  "DeleteSecretVersion store_two_versions ''p1'' ''s1'' ''2''
     = (None, snd (DeleteSecretVersion store_two_versions ''p1'' ''s1'' ''2''))"
  by (simp add: DeleteSecretVersion_def store_two_versions_def secret_key_def
      secret_two_versions_def)

lemma get_1_after_delete_2:
  "GetSecretVersion (snd (DeleteSecretVersion store_two_versions ''p1'' ''s1'' ''2'')) ''p1'' ''s1'' ''1''
     = Inr version_1"
  by (simp add: DeleteSecretVersion_def store_two_versions_def secret_key_def
      secret_two_versions_def GetSecretVersion_def lookup_version_def)

theorem latest_after_deleting_highest_witness:
  "secrets store_two_versions (secret_key ''p1'' ''s1'') = Some secret_two_versions
   \<and> DeleteSecretVersion store_two_versions ''p1'' ''s1'' (Itoa (VersionCount secret_two_versions))
       = (None, snd (DeleteSecretVersion store_two_versions ''p1'' ''s1'' ''2''))
   \<and> GetSecretVersion (snd (DeleteSecretVersion store_two_versions ''p1'' ''s1'' ''2''))
         ''p1'' ''s1'' ''latest'' = Inl ErrVersionNotFound
   \<and> GetSecretVersion (snd (DeleteSecretVersion store_two_versions ''p1'' ''s1'' ''2''))
         ''p1'' ''s1'' ''1'' = Inr version_1"
proof -
  have h: "DeleteSecretVersion store_two_versions ''p1'' ''s1'' (Itoa (VersionCount secret_two_versions))
       = (None, snd (DeleteSecretVersion store_two_versions ''p1'' ''s1'' ''2''))"
    using delete_2_of_two by (simp add: secret_two_versions_count Itoa_small)
  from latest_after_deleting_highest [OF store_two_versions_secret h]
  show ?thesis
    using store_two_versions_secret h get_1_after_delete_2 by blast
qed

text \<open>
  C6: a successful \<^verbatim>\<open>DeleteSecretVersion\<close> replaces the secret by the same secret
  without the one version entry and changes nothing else, so the counter keeps its value
  \<open>c\<close>; the next \<^verbatim>\<open>AddSecretVersion\<close> returns the version with id \<open>c + 1\<close>; and in any
  later run of additions and deletions the additions return the ids \<open>c + 1, c + 2, ...\<close>
  in order, no id twice and none that is \<open>c\<close> or less. The counter is a Go \<^verbatim>\<open>int\<close>: the
  statement is for counters that stay within its range.
\<close>

theorem DeleteSecretVersion_keeps_counter:
  assumes "secrets m (secret_key projectID secretID) = Some secret"
    and "DeleteSecretVersion m projectID secretID versionID = (None, m')"
    and "0 \<le> VersionCount secret"
    and "VersionCount secret + 1 + count_adds calls \<le> MaxInt64"
  shows "secrets m' =
           (secrets m)(secret_key projectID secretID \<mapsto>
              secret\<lparr>Versions := map_option (\<lambda>vs. vs(versionID := None)) (Versions secret)\<rparr>)
         \<and> map_option VersionCount (secrets m' (secret_key projectID secretID))
             = Some (VersionCount secret)
         \<and> map_sum id GetVersionID (fst (AddSecretVersion m' projectID secretID data now etag))
             = Inr (Itoa (VersionCount secret + 1))
         \<and> fst (run_calls m' projectID secretID calls)
             = map Itoa [VersionCount secret + 1 .. VersionCount secret + count_adds calls]
         \<and> distinct (fst (run_calls m' projectID secretID calls))
         \<and> (\<forall>k \<le> VersionCount secret. Itoa k \<notin> set (fst (run_calls m' projectID secretID calls)))"
proof -
  define key where "key = secret_key projectID secretID"
  define c where "c = VersionCount secret"
  from DeleteSecretVersion_ok [OF assms(1,2)] obtain vs where
    vs: "Versions secret = Some vs" and
    m': "m' = m\<lparr>secrets := (secrets m)(key \<mapsto> secret\<lparr>Versions := Some (vs(versionID := None))\<rparr>)\<rparr>"
    unfolding key_def by blast
  define secret' where "secret' = secret\<lparr>Versions := Some (vs(versionID := None))\<rparr>"
  have s': "secrets m' (secret_key projectID secretID) = Some secret'"
    by (simp add: m' secret'_def key_def)
  have v': "Versions secret' = Some (vs(versionID := None))" by (simp add: secret'_def)
  have c': "VersionCount secret' = c" by (simp add: secret'_def c_def)
  have lt: "c < MaxInt64" using assms(4) count_adds_nonneg [of calls] unfolding c_def by linarith
  have 1: "secrets m' = (secrets m)(key \<mapsto>
              secret\<lparr>Versions := map_option (\<lambda>vs. vs(versionID := None)) (Versions secret)\<rparr>)"
    by (simp add: m' vs)
  have 2: "map_option VersionCount (secrets m' key) = Some c"
    using s' c' by (simp add: key_def)
  have 3: "map_sum id GetVersionID (fst (AddSecretVersion m' projectID secretID data now etag))
             = Inr (Itoa (c + 1))"
    using AddSecretVersion_found [OF s' v', of data now etag] wrap64_Suc [of c] assms(3) lt
    by (simp add: c' GetVersionID_NewSecretVersion flip: c_def)
  have run: "fst (run_calls m' projectID secretID calls) = map Itoa [c + 1 .. c + count_adds calls]"
    using run_calls_ids [OF s', of calls] assms(3,4) by (simp add: v' c' flip: c_def)
  have 5: "distinct (map Itoa [c + 1 .. c + count_adds calls])"
    by (simp add: distinct_map inj_on_def Itoa_inj)
  have 6: "\<forall>k \<le> c. Itoa k \<notin> set (map Itoa [c + 1 .. c + count_adds calls])"
    using Itoa_inj by fastforce
  show ?thesis
    using 1 2 3 run 5 6 unfolding key_def c_def by simp
qed


lemma delete_1_of_two:
  "DeleteSecretVersion store_two_versions ''p1'' ''s1'' ''1''
     = (None, snd (DeleteSecretVersion store_two_versions ''p1'' ''s1'' ''1''))"
  by (simp add: DeleteSecretVersion_def store_two_versions_def secret_key_def
      secret_two_versions_def)

lemma count_adds_later_calls: "count_adds later_calls = 2"
  by (simp add: later_calls_def count_adds_simps)

theorem DeleteSecretVersion_keeps_counter_witness:
  "secrets store_two_versions (secret_key ''p1'' ''s1'') = Some secret_two_versions
   \<and> DeleteSecretVersion store_two_versions ''p1'' ''s1'' ''1''
       = (None, snd (DeleteSecretVersion store_two_versions ''p1'' ''s1'' ''1''))
   \<and> 0 \<le> VersionCount secret_two_versions
   \<and> VersionCount secret_two_versions + 1 + count_adds later_calls \<le> MaxInt64
   \<and> map_option VersionCount
        (secrets (snd (DeleteSecretVersion store_two_versions ''p1'' ''s1'' ''1'')) (secret_key ''p1'' ''s1''))
       = Some 2
   \<and> map_sum id GetVersionID
        (fst (AddSecretVersion (snd (DeleteSecretVersion store_two_versions ''p1'' ''s1'' ''1''))
           ''p1'' ''s1'' abc 1003 ''etag-v3'')) = Inr ''3''
   \<and> fst (run_calls (snd (DeleteSecretVersion store_two_versions ''p1'' ''s1'' ''1''))
          ''p1'' ''s1'' later_calls) = [''3'', ''4'']"
proof -
  have h3: "0 \<le> VersionCount secret_two_versions"
    by (simp add: secret_two_versions_count)
  have h4: "VersionCount secret_two_versions + 1 + count_adds later_calls \<le> MaxInt64"
    by (simp add: secret_two_versions_count count_adds_later_calls MaxInt64_def)
  have upto: "[3 .. 4 :: int] = [3, 4]"
    by (simp add: upto_rec1)
  from DeleteSecretVersion_keeps_counter
    [OF store_two_versions_secret delete_1_of_two h3 h4, of abc 1003 "''etag-v3''"]
  show ?thesis
    using store_two_versions_secret delete_1_of_two h3 h4
    by (simp add: secret_two_versions_count count_adds_later_calls Itoa_small upto)
qed

lemma add_versions_Cons:
  assumes "AddSecretVersion m p s data now etag = (r, m1)"
  shows "add_versions m p s ((data, now, etag) # calls)
           = (r # fst (add_versions m1 p s calls), snd (add_versions m1 p s calls))"
  using assms by (simp split: prod.splits)

lemma add_versions_run:
  assumes "secrets m (secret_key p s) = Some secret" and "Versions secret \<noteq> None"
    and "0 \<le> VersionCount secret"
    and "VersionCount secret + int (length calls) \<le> MaxInt64"
  shows "\<exists>versions secret'.
           fst (add_versions m p s calls) = map Inr versions
         \<and> map GetVersionID versions
             = map Itoa [VersionCount secret + 1 .. VersionCount secret + int (length calls)]
         \<and> secrets (snd (add_versions m p s calls)) (secret_key p s) = Some secret'
         \<and> VersionCount secret' = VersionCount secret + int (length calls)
         \<and> Versions secret' \<noteq> None
         \<and> (calls \<noteq> [] \<longrightarrow>
               lookup_version secret' (Itoa (VersionCount secret + int (length calls)))
                 = Some (last versions))"
  using assms
proof (induction calls arbitrary: m secret)
  case Nil
  then show ?case by simp
next
  case (Cons call calls)
  obtain data now etag where call: "call = (data, now, etag)" by (cases call) auto
  from Cons.prems(2) obtain vs where vs: "Versions secret = Some vs" by auto
  define c where "c = VersionCount secret"
  have bound: "c + 1 + int (length calls) \<le> MaxInt64"
    using Cons.prems(4) by (simp add: c_def)
  then have lt: "c < MaxInt64" by linarith
  have w: "wrap64 (VersionCount secret + 1) = c + 1"
    using wrap64_Suc [of c] Cons.prems(3) lt by (simp add: c_def)
  define v where "v = NewSecretVersion p s (Itoa (c + 1)) data now etag"
  define secret1 where
    "secret1 = secret\<lparr>VersionCount := c + 1, Versions := Some (vs(Itoa (c + 1) \<mapsto> v))\<rparr>"
  define m1 where "m1 = m\<lparr>secrets := (secrets m)(secret_key p s \<mapsto> secret1)\<rparr>"
  have add: "AddSecretVersion m p s data now etag = (Inr v, m1)"
    using AddSecretVersion_found [OF Cons.prems(1) vs, of data now etag]
    by (simp add: w v_def secret1_def m1_def)
  have s1: "secrets m1 (secret_key p s) = Some secret1" by (simp add: m1_def)
  have s1v: "Versions secret1 \<noteq> None" by (simp add: secret1_def)
  have s1c: "VersionCount secret1 = c + 1" by (simp add: secret1_def)
  have s1l: "lookup_version secret1 (Itoa (c + 1)) = Some v"
    by (simp add: secret1_def lookup_version_def)
  have id: "GetVersionID v = Itoa (c + 1)"
    unfolding v_def by (rule GetVersionID_NewSecretVersion)
  from Cons.IH [OF s1 s1v] Cons.prems(3) bound obtain versions secret' where
    ih1: "fst (add_versions m1 p s calls) = map Inr versions"
    and ih2: "map GetVersionID versions = map Itoa [c + 1 + 1 .. c + 1 + int (length calls)]"
    and ih3: "secrets (snd (add_versions m1 p s calls)) (secret_key p s) = Some secret'"
    and ih4: "VersionCount secret' = c + 1 + int (length calls)"
    and ih5: "Versions secret' \<noteq> None"
    and ih6: "calls \<noteq> [] \<longrightarrow>
               lookup_version secret' (Itoa (c + 1 + int (length calls))) = Some (last versions)"
    unfolding s1c c_def by force
  have upto: "[c + 1 .. c + (1 + int (length calls))]
                = (c + 1) # [c + 1 + 1 .. c + 1 + int (length calls)]"
    by (subst upto_rec1) (simp_all add: add.assoc)
  have len: "length versions = length calls"
    using ih2 by (metis length_map length_upto add_diff_cancel_left' nat_int add.commute add.assoc diff_add_cancel)
  have last: "lookup_version secret' (Itoa (c + 1 + int (length calls))) = Some (last (v # versions))"
  proof (cases "calls = []")
    case True
    then have "versions = []" using len by simp
    moreover have "secret' = secret1" using True ih3 s1 by simp
    ultimately show ?thesis using True s1l by simp
  next
    case False
    then have "versions \<noteq> []" using len by auto
    then show ?thesis using ih6 False by simp
  qed
  have "fst (add_versions m p s (call # calls)) = map Inr (v # versions)"
    unfolding call add_versions_Cons [OF add] by (simp add: ih1)
  moreover have "map GetVersionID (v # versions)
             = map Itoa [VersionCount secret + 1 .. VersionCount secret + int (length (call # calls))]"
    using ih2 id upto by (simp add: c_def)
  moreover have "secrets (snd (add_versions m p s (call # calls))) (secret_key p s) = Some secret'"
    unfolding call add_versions_Cons [OF add] by (simp add: ih3)
  moreover have "VersionCount secret' = VersionCount secret + int (length (call # calls))"
    using ih4 by (simp add: c_def)
  moreover have "lookup_version secret' (Itoa (VersionCount secret + int (length (call # calls))))
                 = Some (last (v # versions))"
    using last by (simp add: c_def add.assoc)
  ultimately show ?case using ih5 by blast
qed


text \<open>
  C4: on a secret whose counter is 0 (as \<^verbatim>\<open>NewSecret\<close> creates it), \<open>N \<ge> 1\<close> calls of
  \<^verbatim>\<open>AddSecretVersion\<close> one after the other all succeed and return versions with the ids
  \<open>1, ..., N\<close> in call order; afterwards \<^verbatim>\<open>GetSecretVersion\<close> with the id \<open>latest\<close>
  returns the version the last call returned, whose id is \<open>N\<close>. \<open>N\<close> is within the range
  of a Go \<^verbatim>\<open>int\<close>.
\<close>

theorem add_versions_sequential_ids:
  assumes "secrets m (secret_key projectID secretID) = Some secret"
    and "Versions secret \<noteq> None"
    and "VersionCount secret = 0"
    and "calls \<noteq> []"
    and "int (length calls) \<le> MaxInt64"
  shows "map (map_sum id GetVersionID) (fst (add_versions m projectID secretID calls))
           = map (\<lambda>k. Inr (Itoa k)) [1 .. int (length calls)]
         \<and> GetSecretVersion (snd (add_versions m projectID secretID calls)) projectID secretID ''latest''
             = last (fst (add_versions m projectID secretID calls))
         \<and> map_sum id GetVersionID
              (GetSecretVersion (snd (add_versions m projectID secretID calls)) projectID secretID ''latest'')
             = Inr (Itoa (int (length calls)))"
proof -
  define N where "N = int (length calls)"
  have N: "1 \<le> N" using assms(4) by (cases calls) (simp_all add: N_def)
  from add_versions_run [OF assms(1,2), of calls] assms(3,4,5) obtain versions secret' where
    r1: "fst (add_versions m projectID secretID calls) = map Inr versions"
    and r2: "map GetVersionID versions = map Itoa [1 .. N]"
    and r3: "secrets (snd (add_versions m projectID secretID calls)) (secret_key projectID secretID)
               = Some secret'"
    and r4: "VersionCount secret' = N"
    and r6: "lookup_version secret' (Itoa N) = Some (last versions)"
    unfolding N_def by auto
  have ne: "versions \<noteq> []" using r2 N by (auto simp: upto_rec1)
  have latest: "GetSecretVersion (snd (add_versions m projectID secretID calls)) projectID secretID ''latest''
                  = Inr (last versions)"
    using r3 r4 r6 N by (simp add: GetSecretVersion_def)
  have lastid: "GetVersionID (last versions) = Itoa N"
  proof -
    have "GetVersionID (last versions) = last (map GetVersionID versions)"
      using ne by (simp add: last_map)
    also have "\<dots> = last (map Itoa [1 .. N])" by (simp only: r2)
    also have "\<dots> = Itoa (last [1 .. N])" using N by (subst last_map) simp_all
    also have "last [1 .. N] = N" using N by (simp add: upto_rec2)
    finally show ?thesis .
  qed
  have 1: "map (map_sum id GetVersionID) (fst (add_versions m projectID secretID calls))
           = map (\<lambda>k. Inr (Itoa k)) [1 .. N]"
  proof -
    have "map (map_sum id GetVersionID) (map Inr versions) = map Inr (map GetVersionID versions)"
      by simp
    also have "\<dots> = map Inr (map Itoa [1 .. N])" by (simp only: r2)
    also have "\<dots> = map (\<lambda>k. Inr (Itoa k)) [1 .. N]" by (simp add: comp_def)
    finally show ?thesis unfolding r1 .
  qed
  have 2: "GetSecretVersion (snd (add_versions m projectID secretID calls)) projectID secretID ''latest''
             = last (fst (add_versions m projectID secretID calls))"
    unfolding latest r1 using ne by (simp add: last_map)
  have 3: "map_sum id GetVersionID
              (GetSecretVersion (snd (add_versions m projectID secretID calls)) projectID secretID ''latest'')
             = Inr (Itoa N)"
    unfolding latest by (simp add: lastid)
  show ?thesis
    using 1 2 3 unfolding N_def by blast
qed

theorem add_versions_sequential_ids_witness:
  "secrets store_p1_s1 (secret_key ''p1'' ''s1'') = Some secret_p1_s1
   \<and> Versions secret_p1_s1 \<noteq> None
   \<and> VersionCount secret_p1_s1 = 0
   \<and> two_calls \<noteq> []
   \<and> int (length two_calls) \<le> MaxInt64
   \<and> map (map_sum id GetVersionID) (fst (add_versions store_p1_s1 ''p1'' ''s1'' two_calls))
       = [Inr ''1'', Inr ''2'']
   \<and> GetSecretVersion (snd (add_versions store_p1_s1 ''p1'' ''s1'' two_calls)) ''p1'' ''s1'' ''latest''
       = Inr version_2"
proof -
  have h1: "secrets store_p1_s1 (secret_key ''p1'' ''s1'') = Some secret_p1_s1"
    by (simp add: store_p1_s1_secrets secret_key_def)
  have h2: "Versions secret_p1_s1 \<noteq> None" by (simp add: secret_p1_s1_def NewSecret_def)
  have h3: "VersionCount secret_p1_s1 = 0" by (simp add: secret_p1_s1_def NewSecret_def)
  have h4: "two_calls \<noteq> []" by (simp add: two_calls_def)
  have h5: "int (length two_calls) \<le> MaxInt64" by (simp add: two_calls_def MaxInt64_def)
  have len: "int (length two_calls) = 2" by (simp add: two_calls_def)
  have upto: "[1 .. 2 :: int] = [1, 2]" by (simp add: upto_rec1)
  from add_versions_sequential_ids [OF h1 h2 h3 h4 h5]
  show ?thesis
    using h1 h2 h3 h4 h5
    by (simp add: len upto Itoa_small store_two_versions_reached)
qed

subsection \<open>The state of a version\<close>

lemma NewSecretVersion_State: "State (NewSecretVersion p s vid data now etag) = StateEnabled"
  by (simp add: NewSecretVersion_def)

lemma stored_AddSecretVersion:
  assumes "stored (snd (AddSecretVersion m p s data now etag)) key vid = Some v"
  shows "stored m key vid = Some v \<or> State v = StateEnabled"
  using assms
  by (auto simp: stored_def AddSecretVersion_def Let_def lookup_version_def NewSecretVersion_State
      split: option.splits if_splits)

lemma stored_DeleteSecretVersion:
  assumes "stored (snd (DeleteSecretVersion m p s versionID)) key vid = Some v"
  shows "stored m key vid = Some v"
  using assms
  by (auto simp: stored_def DeleteSecretVersion_def Let_def lookup_version_def
      split: option.splits if_splits)

lemma stored_DeleteSecret:
  assumes "stored (snd (DeleteSecret m p s)) key vid = Some v"
  shows "stored m key vid = Some v"
  using assms
  by (auto simp: stored_def DeleteSecret_def Let_def split: option.splits if_splits)

lemma stored_CreateSecret_NewSecret:
  assumes "stored (snd (CreateSecret m p s (NewSecret p s labels now etag))) key vid = Some v"
  shows "stored m key vid = Some v"
  using assms
  by (auto simp: stored_def CreateSecret_def Let_def NewSecret_def lookup_version_def
      split: option.splits if_splits)

lemma stored_apply_call:
  assumes "stored (apply_call m call) key vid = Some v"
  shows "stored m key vid = Some v \<or> State v = StateEnabled"
  using assms
  by (cases call)
    (auto dest: stored_AddSecretVersion stored_DeleteSecretVersion stored_DeleteSecret
      stored_CreateSecret_NewSecret)

lemma stored_foldl_apply_call:
  assumes "stored (foldl apply_call m calls) key vid = Some v"
  shows "stored m key vid = Some v \<or> State v = StateEnabled"
  using assms
proof (induction calls arbitrary: m)
  case Nil
  then show ?case by simp
next
  case (Cons call calls)
  then have "stored (apply_call m call) key vid = Some v \<or> State v = StateEnabled" by simp
  then show ?case using stored_apply_call by blast
qed

lemma stored_NewMemoryStorage: "stored NewMemoryStorage key vid = None"
  by (simp add: stored_def NewMemoryStorage_def)

lemma GetSecretVersion_stored:
  assumes "stored m (secret_key p s) vid = Some v" and "vid \<noteq> ''latest''"
  shows "GetSecretVersion m p s vid = Inr v"
  using assms by (auto simp: stored_def GetSecretVersion_def split: option.splits)

lemma GetSecretVersion_latest_stored:
  assumes "secrets m (secret_key p s) = Some secret" and "VersionCount secret \<noteq> 0"
    and "lookup_version secret (Itoa (VersionCount secret)) = Some v"
  shows "GetSecretVersion m p s ''latest'' = Inr v"
  using assms by (simp add: GetSecretVersion_def)

text \<open>
  C10: \<^verbatim>\<open>NewSecretVersion\<close> creates every version in state \<^verbatim>\<open>ENABLED\<close>; a mutating call
  of the store leaves each version it keeps as it was, and a version it adds is enabled, so
  every version of a store built by such calls from the empty store is enabled. The reads
  never look at the state: \<^verbatim>\<open>GetSecretVersion\<close> returns whatever version is stored under
  the id (for \<open>latest\<close>, under the counter's value) and \<^verbatim>\<open>AccessSecretVersion\<close> its
  payload, in whatever state that version is.
\<close>

theorem versions_enabled_and_state_never_read:
  "State (NewSecretVersion projectID secretID versionID data now etag) = StateEnabled
   \<and> (stored (apply_call m call) key vid = Some v
        \<longrightarrow> stored m key vid = Some v \<or> State v = StateEnabled)
   \<and> (stored (foldl apply_call NewMemoryStorage calls) key vid = Some v
        \<longrightarrow> State v = StateEnabled)
   \<and> (stored m (secret_key projectID secretID) versionID = Some version
        \<and> versionID \<noteq> ''latest''
        \<longrightarrow> GetSecretVersion m projectID secretID versionID = Inr version
          \<and> AccessSecretVersion m projectID secretID versionID = Inr (Data version))
   \<and> (secrets m (secret_key projectID secretID) = Some secret
        \<and> VersionCount secret \<noteq> 0
        \<and> lookup_version secret (Itoa (VersionCount secret)) = Some version
        \<longrightarrow> GetSecretVersion m projectID secretID ''latest'' = Inr version
          \<and> AccessSecretVersion m projectID secretID ''latest'' = Inr (Data version))"
  using stored_apply_call [of m call key vid v]
    stored_foldl_apply_call [of NewMemoryStorage calls key vid v]
    GetSecretVersion_stored [of m projectID secretID versionID version]
    GetSecretVersion_latest_stored [of m projectID secretID secret version]
  by (auto simp: NewSecretVersion_State stored_NewMemoryStorage AccessSecretVersion_def)

lemma wrap64_small: "wrap64 1 = 1" "wrap64 2 = 2" "wrap64 0 = 0"
  by (simp_all add: wrap64_def)

lemma some_calls_store:
  "foldl apply_call NewMemoryStorage some_calls
     = \<lparr>secrets = [''p1/s1'' \<mapsto>
          secret_p1_s1\<lparr>VersionCount := 2,
            Versions := Some ([''1'' \<mapsto> version_1, ''2'' \<mapsto> version_2](''1'' := None))\<rparr>]\<rparr>"
  by (simp add: some_calls_def NewMemoryStorage_def CreateSecret_def AddSecretVersion_def
      DeleteSecretVersion_def secret_key_def Let_def wrap64_small Itoa_small NewSecret_def
      secret_p1_s1_def version_1_def version_2_def)

lemma stored_some_calls:
  "stored (foldl apply_call NewMemoryStorage some_calls) ''p1/s1'' ''2'' = Some version_2"
  by (simp add: some_calls_store stored_def lookup_version_def)

lemma stored_one_call:
  "stored (apply_call store_p1_s1 (CallAddSecretVersion ''p1'' ''s1'' abc 1001 ''etag-v1''))
     ''p1/s1'' ''1'' = Some version_1"
  by (simp add: store_p1_s1_eq AddSecretVersion_def secret_key_def Let_def wrap64_small
      Itoa_small secret_p1_s1_def NewSecret_def stored_def lookup_version_def version_1_def)

lemma stored_disabled:
  "stored store_disabled (secret_key ''p1'' ''s1'') ''1'' = Some disabled_version"
  by (simp add: store_disabled_def secret_key_def stored_def lookup_version_def)

lemma disabled_version_fields:
  "State disabled_version = StateDisabled" "Data disabled_version = abc"
  by (simp_all add: disabled_version_def version_1_def NewSecretVersion_def)

theorem versions_enabled_and_state_never_read_witness:
  "stored (apply_call store_p1_s1 (CallAddSecretVersion ''p1'' ''s1'' abc 1001 ''etag-v1''))
     ''p1/s1'' ''1'' = Some version_1
   \<and> State version_1 = StateEnabled
   \<and> stored (foldl apply_call NewMemoryStorage some_calls) ''p1/s1'' ''2'' = Some version_2
   \<and> State version_2 = StateEnabled
   \<and> stored store_disabled (secret_key ''p1'' ''s1'') ''1'' = Some disabled_version
   \<and> ''1'' \<noteq> ''latest''
   \<and> State disabled_version = StateDisabled
   \<and> GetSecretVersion store_disabled ''p1'' ''s1'' ''1'' = Inr disabled_version
   \<and> AccessSecretVersion store_disabled ''p1'' ''s1'' ''1'' = Inr abc
   \<and> secrets store_disabled (secret_key ''p1'' ''s1'')
       = Some (secret_p1_s1\<lparr>VersionCount := 1, Versions := Some [''1'' \<mapsto> disabled_version]\<rparr>)
   \<and> GetSecretVersion store_disabled ''p1'' ''s1'' ''latest'' = Inr disabled_version
   \<and> AccessSecretVersion store_disabled ''p1'' ''s1'' ''latest'' = Inr abc"
proof -
  have s: "secrets store_disabled (secret_key ''p1'' ''s1'')
       = Some (secret_p1_s1\<lparr>VersionCount := 1, Versions := Some [''1'' \<mapsto> disabled_version]\<rparr>)"
    by (simp add: store_disabled_def secret_key_def)
  have l: "lookup_version
             (secret_p1_s1\<lparr>VersionCount := 1, Versions := Some [''1'' \<mapsto> disabled_version]\<rparr>)
             (Itoa 1) = Some disabled_version"
    by (simp add: lookup_version_def Itoa_small)
  have enabled1: "State version_1 = StateEnabled"
    using versions_enabled_and_state_never_read
      [of "''p1''" "''s1''" "''1''" abc 1001 "''etag-v1''" store_p1_s1
        "CallAddSecretVersion ''p1'' ''s1'' abc 1001 ''etag-v1''" "''p1/s1''" "''1''" version_1]
    by (simp add: version_1_def)
  have enabled2: "State version_2 = StateEnabled"
    using versions_enabled_and_state_never_read
      [of _ _ _ _ _ _ _ _ "''p1/s1''" "''2''" version_2 some_calls] stored_some_calls
    by blast
  have reads: "GetSecretVersion store_disabled ''p1'' ''s1'' ''1'' = Inr disabled_version
      \<and> AccessSecretVersion store_disabled ''p1'' ''s1'' ''1'' = Inr abc
      \<and> GetSecretVersion store_disabled ''p1'' ''s1'' ''latest'' = Inr disabled_version
      \<and> AccessSecretVersion store_disabled ''p1'' ''s1'' ''latest'' = Inr abc"
    using versions_enabled_and_state_never_read
      [of "''p1''" "''s1''" "''1''" _ _ _ store_disabled _ _ _ _ _ disabled_version
        "secret_p1_s1\<lparr>VersionCount := 1, Versions := Some [''1'' \<mapsto> disabled_version]\<rparr>"]
      stored_disabled s l
    by (simp add: disabled_version_fields)
  show ?thesis
    using stored_one_call enabled1 stored_some_calls enabled2 stored_disabled s reads
    by (simp add: disabled_version_fields)
qed

subsection \<open>The scenario with payload abc\<close>

lemma funpow8: "(f ^^ 8) x = f (f (f (f (f (f (f (f x)))))))"
  by (simp add: eval_nat_numeral)

lemma crc_step_numeral:
  "crc_step (numeral k) =
     (if (numeral k :: 32 word) AND 1 = 1 then drop_bit 1 (numeral k) XOR 0xedb88320
      else drop_bit 1 (numeral k))"
  "crc_step 0 = 0"
  "crc_step 1 = 0xedb88320"
  by (simp_all add: crc_step_def IEEE_def)

lemma simpleMakeTable_numeral:
  "simpleMakeTable (numeral k) =
     crc_step (crc_step (crc_step (crc_step (crc_step (crc_step (crc_step (crc_step
       (ucast (numeral k :: 8 word)))))))))"
  by (simp add: simpleMakeTable_def funpow8)

lemma ChecksumIEEE_abc: "ChecksumIEEE abc = 0x352441C2"
proof -
  define step where
    "step = (\<lambda>(c :: 32 word) (v :: 8 word). simpleMakeTable (ucast c XOR v) XOR drop_bit 8 c)"
  have step_numeral: "\<And>k v. step (numeral k) v
      = simpleMakeTable (ucast (numeral k :: 32 word) XOR v) XOR drop_bit 8 (numeral k)"
    by (simp add: step_def)
  have start: "NOT (0 :: 32 word) = 0xFFFFFFFF" by simp
  have "ChecksumIEEE abc = NOT (step (step (step (NOT 0) 0x61) 0x62) 0x63)"
    by (simp add: abc_def ChecksumIEEE_def simpleUpdate_def step_def)
  also have "\<dots> = NOT (step (step (step 0xFFFFFFFF 0x61) 0x62) 0x63)"
    by (simp only: start)
  also have "step 0xFFFFFFFF 0x61 = 0x174841BC"
    by (simp add: step_numeral simpleMakeTable_numeral crc_step_numeral)
  also have "step 0x174841BC 0x62 = 0x617CB792"
    by (simp add: step_numeral simpleMakeTable_numeral crc_step_numeral)
  also have "step 0x617CB792 0x63 = 0xCADBBE3D"
    by (simp add: step_numeral simpleMakeTable_numeral crc_step_numeral)
  also have "NOT (0xCADBBE3D :: 32 word) = 0x352441C2" by simp
  finally show ?thesis .
qed

lemma hex08_crc_abc: "hex08 0x352441C2 = ''352441c2''"
  by (simp add: hex08_def hex_bytes_def hex_byte_def be_bytes32_def hex_char_def)

lemma hex08_claimed: "hex08 0x4F5344CE = ''4f5344ce''"
  by (simp add: hex08_def hex_bytes_def hex_byte_def be_bytes32_def hex_char_def)

lemma replicate_numeral: "replicate (numeral k) x = x # replicate (pred_numeral k) x"
  by (simp add: numeral_eq_Suc)

lemma expand_numeral:
  "expand (numeral k) w =
     (ssig1 (w ! 14) + w ! 9 + ssig0 (w ! 1) + w ! 0)
       # expand (pred_numeral k) (tl w @ [ssig1 (w ! 14) + w ! 9 + ssig0 (w ! 1) + w ! 0])"
  by (simp add: numeral_eq_Suc Let_def)

lemma sha256_round_list:
  "sha256_round [a, b, c, d, e, f, g, h] (k, w) =
     [h + bsig1 e + Ch e f g + k + w + (bsig0 a + Maj a b c), a, b, c,
      d + (h + bsig1 e + Ch e f g + k + w), e, f, g]"
  by (simp add: sha256_round_def Let_def)

lemma sha256_pad_abc:
  "be_words (sha256_pad abc) = [0x61626380, 0, 0, 0, 0, 0, 0, 0, 0, 0, 0, 0, 0, 0, 0, 0x18]"
  by (simp add: abc_def sha256_pad_def be_bytes64_def replicate_numeral)

lemma schedule_abc:
  "schedule [0x61626380, 0, 0, 0, 0, 0, 0, 0, 0, 0, 0, 0, 0, 0, 0, 0x18] =
    [1633837952, 0, 0, 0, 0, 0, 0, 0, 0, 0, 0, 0, 0, 0, 0, 24, 1633837952,
     983040, 2108187653, 1610613702, 1050508152, 25426944, 316456923,
     3806512014, 3357629466, 3073800610, 3854317833, 845560923, 2636160359,
     3968280267, 1881225380, 3552024379, 2482346367, 996719219, 2952069057,
     4043988066, 176896406, 1924104970, 2483675966, 610538786, 2672279444,
     4037431130, 1042573945, 657669027, 206005234, 2215296807, 2049510749,
     106709978, 4215179723, 3430291419, 3118885940, 2845390439, 2226839261,
     3256115900, 344409900, 2987358873, 4015503821, 3957764664, 2682456414,
     2025622859, 2755645205, 1720397816, 4004225740, 313650667]"
  by (simp add: schedule_def expand_numeral ssig0_def ssig1_def rotr_def)


lemma rounds_abc:
  "foldl sha256_round sha256_init (zip K256
    [1633837952, 0, 0, 0, 0, 0, 0, 0, 0, 0, 0, 0, 0, 0, 0, 24, 1633837952,
     983040, 2108187653, 1610613702, 1050508152, 25426944, 316456923,
     3806512014, 3357629466, 3073800610, 3854317833, 845560923, 2636160359,
     3968280267, 1881225380, 3552024379, 2482346367, 996719219, 2952069057,
     4043988066, 176896406, 1924104970, 2483675966, 610538786, 2672279444,
     4037431130, 1042573945, 657669027, 206005234, 2215296807, 2049510749,
     106709978, 4215179723, 3430291419, 3118885940, 2845390439, 2226839261,
     3256115900, 344409900, 2987358873, 4015503821, 3957764664, 2682456414,
     2025622859, 2755645205, 1720397816, 4004225740, 313650667])
   = [1349398616, 3550093669, 80891244, 3093179625, 1593118500, 4212265488,
      2492278198, 2518632596]"
  by (simp add: sha256_init_def K256_def sha256_round_list bsig0_def bsig1_def Ch_def Maj_def
      rotr_def)

lemma sha256_blocks_abc:
  "sha256_blocks sha256_init (be_words (sha256_pad abc))
     = [0xBA7816BF, 0x8F01CFEA, 0x414140DE, 0x5DAE2223, 0xB00361A3, 0x96177A9C, 0xB410FF61,
        0xF20015AD]"
proof -
  have one: "\<And>h ws. length ws = 16 \<Longrightarrow> sha256_blocks h ws = sha256_block h ws"
    by (subst sha256_blocks.simps, subst sha256_blocks.simps) simp
  have "sha256_blocks sha256_init (be_words (sha256_pad abc))
          = sha256_block sha256_init (be_words (sha256_pad abc))"
    by (rule one) (simp add: sha256_pad_abc)
  also have "\<dots> = map2 (+) sha256_init
        [1349398616, 3550093669, 80891244, 3093179625, 1593118500, 4212265488,
         2492278198, 2518632596]"
    by (simp only: sha256_block_def sha256_pad_abc schedule_abc rounds_abc)
  also have "\<dots> = [0xBA7816BF, 0x8F01CFEA, 0x414140DE, 0x5DAE2223, 0xB00361A3, 0x96177A9C,
        0xB410FF61, 0xF20015AD]"
    by (simp add: sha256_init_def)
  finally show ?thesis .
qed

lemma Sum256_abc:
  "hex_bytes (Sum256 abc) = ''ba7816bf8f01cfea414140de5dae2223b00361a396177a9cb410ff61f20015ad''"
  by (simp add: Sum256_def sha256_blocks_abc be_bytes32_def hex_bytes_def hex_byte_def
      hex_char_def)

lemma generateChecksum_abc:
  "generateChecksum abc =
     \<lparr>Crc32c = ''352441c2'',
      Sha256 = ''ba7816bf8f01cfea414140de5dae2223b00361a396177a9cb410ff61f20015ad''\<rparr>"
  by (simp add: generateChecksum_def ChecksumIEEE_abc hex08_crc_abc Sum256_abc)


lemma scenario_create:
  "CreateSecret NewMemoryStorage ''p1'' ''s1'' secret
     = (None, \<lparr>secrets = [''p1/s1'' \<mapsto> secret]\<rparr>)"
  by (simp add: CreateSecret_def NewMemoryStorage_def secret_key_def)

lemma scenario_add:
  "AddSecretVersion \<lparr>secrets = [''p1/s1'' \<mapsto> NewSecret ''p1'' ''s1'' labels now0 etag0]\<rparr>
     ''p1'' ''s1'' abc now1 etag1
   = (Inr (NewSecretVersion ''p1'' ''s1'' ''1'' abc now1 etag1),
      \<lparr>secrets = [''p1/s1'' \<mapsto>
         (NewSecret ''p1'' ''s1'' labels now0 etag0)
           \<lparr>VersionCount := 1,
            Versions := Some [''1'' \<mapsto> NewSecretVersion ''p1'' ''s1'' ''1'' abc now1 etag1]\<rparr>]\<rparr>)"
  by (simp add: AddSecretVersion_def secret_key_def Let_def NewSecret_def wrap64_small Itoa_small)

text \<open>
  C3, as the code has it: create the secret \<open>p1/s1\<close>, add a version with payload
  \<open>abc\<close>; the version returned has id \<open>1\<close>, and \<^verbatim>\<open>GetSecretVersion\<close> for id \<open>1\<close>
  returns it, with payload \<open>abc\<close> and a checksum whose \<^verbatim>\<open>Crc32c\<close> is the IEEE CRC-32 of
  \<open>abc\<close>, \<^verbatim>\<open>0x352441c2\<close>, written as eight hexadecimal digits, and whose \<^verbatim>\<open>Sha256\<close> is
  the SHA-256 digest of \<open>abc\<close> in hexadecimal (\<open>ba7816bf...\<close>, the digest the standard
  lists for this message); \<^verbatim>\<open>DeleteSecret\<close> then succeeds and
  \<^verbatim>\<open>GetSecret\<close> returns \<^verbatim>\<open>ErrSecretNotFound\<close>. The clock readings, the etags and the
  labels are arbitrary.
\<close>

theorem scenario_abc:
  "(let m1 = snd (CreateSecret NewMemoryStorage ''p1'' ''s1'' (NewSecret ''p1'' ''s1'' labels now0 etag0));
        added = AddSecretVersion m1 ''p1'' ''s1'' abc now1 etag1;
        m2 = snd added;
        m3 = snd (DeleteSecret m2 ''p1'' ''s1'')
    in fst (CreateSecret NewMemoryStorage ''p1'' ''s1'' (NewSecret ''p1'' ''s1'' labels now0 etag0)) = None
       \<and> map_sum id GetVersionID (fst added) = Inr ''1''
       \<and> GetSecretVersion m2 ''p1'' ''s1'' ''1'' = fst added
       \<and> map_sum id Data (GetSecretVersion m2 ''p1'' ''s1'' ''1'') = Inr abc
       \<and> map_sum id Checksum (GetSecretVersion m2 ''p1'' ''s1'' ''1'')
           = Inr (Some \<lparr>Crc32c = ''352441c2'',
                         Sha256 = ''ba7816bf8f01cfea414140de5dae2223b00361a396177a9cb410ff61f20015ad''\<rparr>)
       \<and> ChecksumIEEE abc = 0x352441C2
       \<and> hex08 0x352441C2 = ''352441c2''
       \<and> hex_bytes (Sum256 abc)
           = ''ba7816bf8f01cfea414140de5dae2223b00361a396177a9cb410ff61f20015ad''
       \<and> fst (DeleteSecret m2 ''p1'' ''s1'') = None
       \<and> GetSecret m3 ''p1'' ''s1'' = Inl ErrSecretNotFound)"
proof -
  have id: "GetVersionID (NewSecretVersion ''p1'' ''s1'' ''1'' abc now1 etag1) = ''1''"
    using GetVersionID_NewSecretVersion [of "''p1''" "''s1''" 1 abc now1 etag1]
    by (simp add: Itoa_small)
  have fields: "Data (NewSecretVersion ''p1'' ''s1'' ''1'' abc now1 etag1) = abc"
    "Checksum (NewSecretVersion ''p1'' ''s1'' ''1'' abc now1 etag1) = Some (generateChecksum abc)"
    by (simp_all add: NewSecretVersion_def)
  show ?thesis
    by (simp add: Let_def scenario_create scenario_add id fields generateChecksum_abc
        ChecksumIEEE_abc hex08_crc_abc Sum256_abc GetSecretVersion_def GetSecret_def DeleteSecret_def
        secret_key_def lookup_version_def)
qed

text \<open>
  The checksum of the scenario is not the value \<^verbatim>\<open>0x4F5344CE\<close>: the stored string is
  \<open>352441c2\<close>, where that value would be written \<open>4f5344ce\<close>.
\<close>

theorem scenario_abc_crc_counterexample:
  "map_sum id (map_option Crc32c \<circ> Checksum)
     (GetSecretVersion (snd (AddSecretVersion store_p1_s1 ''p1'' ''s1'' abc 1001 ''etag-v1''))
        ''p1'' ''s1'' ''1'')
     = Inr (Some ''352441c2'')
   \<and> hex08 0x4F5344CE = ''4f5344ce''
   \<and> ChecksumIEEE abc \<noteq> 0x4F5344CE"
  by (simp add: store_p1_s1_eq secret_p1_s1_def scenario_add GetSecretVersion_def secret_key_def
      lookup_version_def NewSecretVersion_def generateChecksum_abc ChecksumIEEE_abc hex08_claimed)

subsection \<open>Listing the secrets of a project\<close>

lemma range_secrets_eq:
  assumes "set order \<subseteq> dom (secrets m)"
  shows "range_secrets m order prefix
           = map (\<lambda>key. the (secrets m key)) (filter (\<lambda>key. HasPrefix key prefix) order)"
  using assms
  by (induction order) (auto simp: range_secrets_def List.map_filter_simps)

lemma sorted_by_name_unique:
  assumes "sorted (map f xs)" and "sorted (map f ys)"
    and "distinct (map f xs)" and "distinct (map f ys)" and "set xs = set ys"
  shows "xs = ys"
proof -
  have "set (map f xs) = set (map f ys)" using assms(5) by simp
  with assms(1-4) have eq: "map f xs = map f ys"
    by (metis sorted_distinct_set_unique)
  have "inj_on f (set xs \<union> set ys)"
    using assms(3,5) by (simp add: distinct_map)
  with eq show ?thesis by (simp add: inj_on_map_eq_map)
qed

lemma Atoi_small: "Atoi ''2'' = Some 2" "Atoi ''4'' = Some 4"
  by code_simp+

lemma wrap64_page: "wrap64 6 = 6" "wrap64 4 = 4"
  by (simp_all add: wrap64_def)

lemma ListSecrets_pages_of_5:
  assumes "sort_key Secret.Name (range_secrets m order (projectID @ ''/'')) = L"
    and "length L = 5"
  shows "ListSecrets m order projectID 2 [] = Inr (take 2 L, ''2'')"
    and "ListSecrets m order projectID 2 ''2'' = Inr (take 2 (drop 2 L), ''4'')"
    and "ListSecrets m order projectID 2 ''4'' = Inr (drop 4 L, [])"
  using assms
  by (simp_all add: ListSecrets_def Let_def Atoi_small wrap64_small wrap64_page Itoa_small)


lemma listing_facts:
  assumes "distinct order" and "set order = dom (secrets m)"
    and "inj_on (\<lambda>key. map_option Secret.Name (secrets m key)) (scoped_keys m projectID)"
  defines "L \<equiv> sort_key Secret.Name (range_secrets m order (projectID @ ''/''))"
  shows "length L = card (scoped_keys m projectID)"
    and "set L = {secret. \<exists>key \<in> scoped_keys m projectID. secrets m key = Some secret}"
    and "sorted (map Secret.Name L)"
    and "distinct (map Secret.Name L)"
proof -
  define keys where "keys = filter (\<lambda>key. HasPrefix key (projectID @ ''/'')) order"
  define g where "g = (\<lambda>key. the (secrets m key))"
  have found: "range_secrets m order (projectID @ ''/'') = map g keys"
    using range_secrets_eq [of order m] assms(2) by (simp add: keys_def g_def)
  have keys_set: "set keys = scoped_keys m projectID"
    using assms(2) by (auto simp: keys_def scoped_keys_def)
  have keys_distinct: "distinct keys" using assms(1) by (simp add: keys_def)
  have inj: "inj_on (Secret.Name \<circ> g) (set keys)"
  proof (rule inj_onI)
    fix a b assume a: "a \<in> set keys" and b: "b \<in> set keys"
      and eq: "(Secret.Name \<circ> g) a = (Secret.Name \<circ> g) b"
    from a b keys_set obtain sa sb where sa: "secrets m a = Some sa" and sb: "secrets m b = Some sb"
      by (auto simp: scoped_keys_def)
    with eq have "map_option Secret.Name (secrets m a) = map_option Secret.Name (secrets m b)"
      by (simp add: g_def)
    with assms(3) a b keys_set show "a = b" by (auto dest: inj_onD)
  qed
  have names_distinct: "distinct (map Secret.Name (map g keys))"
    using keys_distinct inj by (simp add: distinct_map comp_def)
  show "length L = card (scoped_keys m projectID)"
    using distinct_card [OF keys_distinct] keys_set by (simp add: L_def found)
  have "g ` scoped_keys m projectID
          = {secret. \<exists>key \<in> scoped_keys m projectID. secrets m key = Some secret}"
    by (force simp: g_def scoped_keys_def image_iff)
  then show "set L = {secret. \<exists>key \<in> scoped_keys m projectID. secrets m key = Some secret}"
    using keys_set by (simp add: L_def found)
  show "sorted (map Secret.Name L)" by (simp add: L_def)
  from names_distinct have "distinct (map g keys) \<and> inj_on Secret.Name (set (map g keys))"
    by (simp only: distinct_map)
  then show "distinct (map Secret.Name L)"
    by (simp add: L_def found distinct_map)
qed


text \<open>
  C8: when exactly five keys of the store belong to the project, and the secrets under them
  have five different names, three calls of \<^verbatim>\<open>ListSecrets\<close> with page size 2, the first
  with no token and each next one with the token the call before returned, return the
  first two, the next two and the last one of the five secrets in ascending order of name:
  together all five, none twice, none missing; the tokens are \<open>2\<close>, \<open>4\<close> and the empty
  string. Each call may meet the keys of the map in an order of its own.
\<close>

theorem ListSecrets_five_in_three_pages:
  assumes "distinct order1" and "set order1 = dom (secrets m)"
    and "distinct order2" and "set order2 = dom (secrets m)"
    and "distinct order3" and "set order3 = dom (secrets m)"
    and "card (scoped_keys m projectID) = 5"
    and "inj_on (\<lambda>key. map_option Secret.Name (secrets m key)) (scoped_keys m projectID)"
  shows "(let L = sort_key Secret.Name (range_secrets m order1 (projectID @ ''/''))
          in ListSecrets m order1 projectID 2 [] = Inr (take 2 L, ''2'')
           \<and> ListSecrets m order2 projectID 2 ''2'' = Inr (take 2 (drop 2 L), ''4'')
           \<and> ListSecrets m order3 projectID 2 ''4'' = Inr (drop 4 L, [])
           \<and> take 2 L @ take 2 (drop 2 L) @ drop 4 L = L
           \<and> length L = 5
           \<and> distinct L
           \<and> set L = {secret. \<exists>key. key \<in> scoped_keys m projectID \<and> secrets m key = Some secret}
           \<and> sorted (map Secret.Name L)
           \<and> distinct (map Secret.Name L))"
proof -
  define L1 where "L1 = sort_key Secret.Name (range_secrets m order1 (projectID @ ''/''))"
  define L2 where "L2 = sort_key Secret.Name (range_secrets m order2 (projectID @ ''/''))"
  define L3 where "L3 = sort_key Secret.Name (range_secrets m order3 (projectID @ ''/''))"
  note f1 = listing_facts [OF assms(1,2,8), folded L1_def]
  note f2 = listing_facts [OF assms(3,4,8), folded L2_def]
  note f3 = listing_facts [OF assms(5,6,8), folded L3_def]
  have L2: "L2 = L1"
    by (rule sorted_by_name_unique [OF f2(3) f1(3) f2(4) f1(4)]) (simp add: f1(2) f2(2))
  have L3: "L3 = L1"
    by (rule sorted_by_name_unique [OF f3(3) f1(3) f3(4) f1(4)]) (simp add: f1(2) f3(2))
  have len: "length L1 = 5" using f1(1) assms(7) by simp
  have p1: "ListSecrets m order1 projectID 2 [] = Inr (take 2 L1, ''2'')"
    by (rule ListSecrets_pages_of_5(1) [OF L1_def [symmetric] len])
  have p2: "ListSecrets m order2 projectID 2 ''2'' = Inr (take 2 (drop 2 L1), ''4'')"
    by (rule ListSecrets_pages_of_5(2) [OF _ len]) (simp add: L2 [symmetric] L2_def)
  have p3: "ListSecrets m order3 projectID 2 ''4'' = Inr (drop 4 L1, [])"
    by (rule ListSecrets_pages_of_5(3) [OF _ len]) (simp add: L3 [symmetric] L3_def)
  have cat: "take 2 L1 @ take 2 (drop 2 L1) @ drop 4 L1 = L1"
  proof -
    have "take 2 (drop 2 L1) @ drop 4 L1 = drop 2 L1"
      using append_take_drop_id [of 2 "drop 2 L1"] by simp
    then show ?thesis by simp
  qed
  have d: "distinct L1" using f1(4) by (simp add: distinct_map)
  have s: "set L1 = {secret. \<exists>key. key \<in> scoped_keys m projectID \<and> secrets m key = Some secret}"
    using f1(2) by auto
  show ?thesis
    unfolding Let_def L1_def [symmetric]
    using p1 p2 p3 cat len d s f1(3) f1(4) by blast
qed


lemma dom_store_five: "dom (secrets store_five) = set order_1"
  by (auto simp: store_five_def order_1_def)

lemma scoped_keys_store_five:
  "scoped_keys store_five ''p1'' = set [''p1/c'', ''p1/a'', ''p1/e'', ''p1/b'', ''p1/d'']"
proof -
  have "scoped_keys store_five ''p1''
          = set (filter (\<lambda>key. HasPrefix key (''p1'' @ ''/'')) order_1)"
    unfolding scoped_keys_def dom_store_five by simp
  also have "filter (\<lambda>key. HasPrefix key (''p1'' @ ''/'')) order_1
          = [''p1/c'', ''p1/a'', ''p1/e'', ''p1/b'', ''p1/d'']"
    by (simp add: order_1_def HasPrefix_def)
  finally show ?thesis .
qed

lemma Name_p1_secret: "Secret.Name (p1_secret x) = ''projects/p1/secrets/'' @ x"
  by (simp add: p1_secret_def NewSecret_def)

lemma sorted_store_five:
  "sort_key Secret.Name (range_secrets store_five order_1 (''p1'' @ ''/''))
     = [p1_secret ''a'', p1_secret ''b'', p1_secret ''c'', p1_secret ''d'', p1_secret ''e'']"
  by (simp add: range_secrets_def List.map_filter_simps HasPrefix_def store_five_def order_1_def
      Name_p1_secret)

theorem ListSecrets_five_in_three_pages_witness:
  "distinct order_1 \<and> set order_1 = dom (secrets store_five)
   \<and> distinct order_2 \<and> set order_2 = dom (secrets store_five)
   \<and> distinct order_3 \<and> set order_3 = dom (secrets store_five)
   \<and> card (scoped_keys store_five ''p1'') = 5
   \<and> inj_on (\<lambda>key. map_option Secret.Name (secrets store_five key)) (scoped_keys store_five ''p1'')
   \<and> ListSecrets store_five order_1 ''p1'' 2 [] = Inr ([p1_secret ''a'', p1_secret ''b''], ''2'')
   \<and> ListSecrets store_five order_2 ''p1'' 2 ''2'' = Inr ([p1_secret ''c'', p1_secret ''d''], ''4'')
   \<and> ListSecrets store_five order_3 ''p1'' 2 ''4'' = Inr ([p1_secret ''e''], [])"
proof -
  have o1: "distinct order_1" "set order_1 = dom (secrets store_five)"
    by (simp_all add: dom_store_five) (simp add: order_1_def)
  have o2: "distinct order_2" "set order_2 = dom (secrets store_five)"
    unfolding dom_store_five by (auto simp: order_1_def order_2_def)
  have o3: "distinct order_3" "set order_3 = dom (secrets store_five)"
    unfolding dom_store_five by (auto simp: order_1_def order_3_def)
  have c: "card (scoped_keys store_five ''p1'') = 5"
    unfolding scoped_keys_store_five by (subst distinct_card) simp_all
  have i: "inj_on (\<lambda>key. map_option Secret.Name (secrets store_five key)) (scoped_keys store_five ''p1'')"
    unfolding scoped_keys_store_five by (simp add: store_five_def Name_p1_secret)
  let ?L = "[p1_secret ''a'', p1_secret ''b'', p1_secret ''c'', p1_secret ''d'', p1_secret ''e'']"
  note pages = ListSecrets_five_in_three_pages [OF o1 o2 o3 c i, unfolded Let_def sorted_store_five]
  have p1: "ListSecrets store_five order_1 ''p1'' 2 [] = Inr (take 2 ?L, ''2'')"
    using pages by (rule conjunct1)
  have p2: "ListSecrets store_five order_2 ''p1'' 2 ''2'' = Inr (take 2 (drop 2 ?L), ''4'')"
    using pages by (elim conjE)
  have p3: "ListSecrets store_five order_3 ''p1'' 2 ''4'' = Inr (drop 4 ?L, [])"
    using pages by (elim conjE)
  have t: "take 2 ?L = [p1_secret ''a'', p1_secret ''b'']"
    "take 2 (drop 2 ?L) = [p1_secret ''c'', p1_secret ''d'']" "drop 4 ?L = [p1_secret ''e'']"
    by simp_all
  show ?thesis
    using o1 o2 o3 c i p1 p2 p3 unfolding t by (intro conjI)
qed

subsection \<open>Saving and loading\<close>

lemma Save_never_returns: "Save p now writable = None"
  by (simp add: Save_def Lock_def RLock_def)

lemma Load_Snapshot_never_returns:
  assumes "backing p = Snapshot j"
  shows "Load p = None"
  using assms by (simp add: Load_def Lock_def)

lemma Load_NoFile:
  assumes "mu p = Unlocked" and "backing p = NoFile"
  shows "Load p = Some (None, p)"
  using assms by (cases p) (simp add: Load_def Lock_def Unlock_def)

lemma Persistent_AddSecretVersion_never_returns:
  assumes "AddSecretVersion (store p) projectID secretID data now etag = (Inr version, st)"
  shows "Persistent_AddSecretVersion p projectID secretID data now etag save_now writable = None"
  using assms
  by (simp add: Persistent_AddSecretVersion_def Save_never_returns)

lemma persistent_p1_s1_add:
  "AddSecretVersion (store persistent_p1_s1) ''p1'' ''s1'' abc 1001 ''etag-v1''
     = (Inr version_1, snd (AddSecretVersion store_p1_s1 ''p1'' ''s1'' abc 1001 ''etag-v1''))"
  by (simp add: persistent_p1_s1_def store_p1_s1_eq secret_p1_s1_def scenario_add version_1_def)

text \<open>
  C2 fails on the code. The wrapper's \<^verbatim>\<open>AddSecretVersion\<close> on the fresh secret \<open>p1/s1\<close>,
  whether the file can be written or not: the in-memory addition succeeds and leaves the
  counter at 1 with version \<open>1\<close> stored (it was 0 before, with no version); the call of
  \<^verbatim>\<open>Save\<close> that follows does not return, so the wrapper does not return either: no error
  reaches the caller, and the rollback block is never run.
\<close>

theorem Persistent_AddSecretVersion_hangs_after_mutation:
  "Persistent_AddSecretVersion persistent_p1_s1 ''p1'' ''s1'' abc 1001 ''etag-v1'' save_now writable
     = None
   \<and> Save
        (persistent_p1_s1
           \<lparr>store := snd (AddSecretVersion (store persistent_p1_s1) ''p1'' ''s1'' abc 1001 ''etag-v1'')\<rparr>)
        save_now writable = None
   \<and> fst (AddSecretVersion (store persistent_p1_s1) ''p1'' ''s1'' abc 1001 ''etag-v1'')
       = Inr version_1
   \<and> map_option VersionCount (secrets (store persistent_p1_s1) ''p1/s1'') = Some 0
   \<and> stored (store persistent_p1_s1) ''p1/s1'' ''1'' = None
   \<and> map_option VersionCount
        (secrets (snd (AddSecretVersion (store persistent_p1_s1) ''p1'' ''s1'' abc 1001 ''etag-v1''))
           ''p1/s1'') = Some 1
   \<and> stored (snd (AddSecretVersion (store persistent_p1_s1) ''p1'' ''s1'' abc 1001 ''etag-v1''))
         ''p1/s1'' ''1'' = Some version_1"
proof -
  have hang: "Persistent_AddSecretVersion persistent_p1_s1 ''p1'' ''s1'' abc 1001 ''etag-v1''
                save_now writable = None"
    by (rule Persistent_AddSecretVersion_never_returns [OF persistent_p1_s1_add])
  have before: "map_option VersionCount (secrets (store persistent_p1_s1) ''p1/s1'') = Some 0"
    "stored (store persistent_p1_s1) ''p1/s1'' ''1'' = None"
    by (simp_all add: persistent_p1_s1_def store_p1_s1_eq secret_p1_s1_def NewSecret_def
        stored_def lookup_version_def)
  have after: "fst (AddSecretVersion (store persistent_p1_s1) ''p1'' ''s1'' abc 1001 ''etag-v1'')
       = Inr version_1"
    "map_option VersionCount
        (secrets (snd (AddSecretVersion (store persistent_p1_s1) ''p1'' ''s1'' abc 1001 ''etag-v1''))
           ''p1/s1'') = Some 1"
    "stored (snd (AddSecretVersion (store persistent_p1_s1) ''p1'' ''s1'' abc 1001 ''etag-v1''))
         ''p1/s1'' ''1'' = Some version_1"
    by (simp_all add: persistent_p1_s1_def store_p1_s1_eq secret_p1_s1_def scenario_add
        version_1_def stored_def lookup_version_def)
  show ?thesis
    using hang before after by (simp add: Save_never_returns)
qed

lemma Unmarshal_Marshal:
  "Secrets (Unmarshal (Marshal d))
     = map_option (\<lambda>secret. secret\<lparr>Versions := None, VersionCount := 0\<rparr>) \<circ> Secrets d"
proof
  fix key
  show "Secrets (Unmarshal (Marshal d)) key
     = (map_option (\<lambda>secret. secret\<lparr>Versions := None, VersionCount := 0\<rparr>) \<circ> Secrets d) key"
    by (cases "Secrets d key")
      (simp_all add: Unmarshal_def Marshal_def Unmarshal_Secret_def Marshal_Secret_def)
qed

text \<open>
  C1 fails on the code. For the store that holds the secret \<open>p1/s1\<close> with two versions:
  \<^verbatim>\<open>Save\<close> does not return (it takes \<^verbatim>\<open>p.mu.Lock()\<close> and then \<^verbatim>\<open>p.mu.RLock()\<close> on the same
  mutex); \<^verbatim>\<open>Load\<close> on a fresh instance over the document \<^verbatim>\<open>Save\<close> was to write does not
  return either (a second \<^verbatim>\<open>p.mu.Lock()\<close>); and the document itself, decoded, gives the
  secret with a nil version map and counter 0, which is not the secret that was stored.
\<close>

theorem Save_Load_roundtrip_fails:
  "Save persistent_two_versions now writable = None
   \<and> Load (NewPersistentStorage
         (Snapshot (Marshal \<lparr>Secrets = secrets store_two_versions, Timestamp = now,
                             Version = ''1.0.0''\<rparr>))) = None
   \<and> Secrets (Unmarshal (Marshal \<lparr>Secrets = secrets store_two_versions, Timestamp = now,
                                  Version = ''1.0.0''\<rparr>)) ''p1/s1''
       = Some (secret_p1_s1\<lparr>Versions := None, VersionCount := 0\<rparr>)
   \<and> secrets store_two_versions ''p1/s1'' = Some secret_two_versions
   \<and> secret_p1_s1\<lparr>Versions := None, VersionCount := 0\<rparr> \<noteq> secret_two_versions
   \<and> lookup_version (secret_p1_s1\<lparr>Versions := None, VersionCount := 0\<rparr>) ''1'' = None
   \<and> lookup_version secret_two_versions ''1'' = Some version_1"
proof -
  have "VersionCount (secret_p1_s1\<lparr>Versions := None, VersionCount := 0\<rparr>)
          \<noteq> VersionCount secret_two_versions"
    by (simp add: secret_two_versions_def)
  then have ne: "secret_p1_s1\<lparr>Versions := None, VersionCount := 0\<rparr> \<noteq> secret_two_versions"
    by metis
  show ?thesis
    using ne
    by (simp add: Save_never_returns Load_Snapshot_never_returns NewPersistentStorage_def
        Unmarshal_Marshal store_two_versions_def secret_two_versions_def lookup_version_def)
qed

subsection \<open>Concurrent additions\<close>

lemma invariant_init:
  assumes "secrets m key = Some secret" and "Versions secret = Some vs"
  shows "invariant key (VersionCount secret) (init m n calls)"
  using assms
  by (auto simp: invariant_def init_def spawn_def in_section_def returned_def committed_def)

lemma card_returned:
  assumes "inj_on (id_of c) (returned c)" and "id_of c ` returned c = {c0 + 1 .. hi}"
    and "c0 \<le> hi"
  shows "hi = c0 + int (card (returned c))"
proof -
  have "card (returned c) = card (id_of c ` returned c)"
    using assms(1) by (simp add: card_image)
  also have "\<dots> = card {c0 + 1 .. hi}" by (simp only: assms(2))
  also have "\<dots> = nat (hi - c0)" by simp
  finally show ?thesis using assms(3) by simp
qed

lemma returned_subset: "returned c \<subseteq> {..<count c}"
  by (auto simp: returned_def)

lemma card_returned_less:
  assumes "i < count c" and "at (goroutines c i) \<noteq> Returned"
  shows "card (returned c) < count c"
proof -
  have "returned c \<subseteq> {..<count c} - {i}" using assms(2) by (auto simp: returned_def)
  then have "card (returned c) \<le> card ({..<count c} - {i})"
    by (simp add: card_mono)
  also have "\<dots> < count c" using assms(1) by (simp add: card_Diff_singleton)
  finally show ?thesis .
qed


lemma set_goroutine_simps:
  "goroutines (set_goroutine c i g) = (goroutines c)(i := g)"
  "shared (set_goroutine c i g) = shared c"
  "holder (set_goroutine c i g) = holder c"
  "count (set_goroutine c i g) = count c"
  by (simp_all add: set_goroutine_def)

lemma set_secret_simps:
  "goroutines (set_secret c key secret) = goroutines c"
  "secrets (shared (set_secret c key secret)) = (secrets (shared c))(key \<mapsto> secret)"
  "holder (set_secret c key secret) = holder c"
  "count (set_secret c key secret) = count c"
  by (simp_all add: set_secret_def)

lemma returned_unchanged:
  assumes "goroutines c' = (goroutines c)(i := g)" and "count c' = count c"
    and "at (goroutines c i) \<noteq> Returned" and "at g \<noteq> Returned"
  shows "returned c' = returned c"
  using assms by (auto simp: returned_def)

lemma id_of_other:
  assumes "goroutines c' = (goroutines c)(i := g)" and "j \<noteq> i"
  shows "id_of c' j = id_of c j" and "received c' j = received c j"
  using assms by (simp_all add: id_of_def received_def)

lemma invariant_kept:
  assumes inv: "invariant key c0 c"
    and g: "goroutines c' = (goroutines c)(i := g)" and n: "count c' = count c"
    and i: "i < count c"
    and a: "at (goroutines c i) \<noteq> Returned" and a': "at g \<noteq> Returned"
    and sec: "\<And>secret vs. secrets (shared c) key = Some secret \<Longrightarrow> Versions secret = Some vs \<Longrightarrow>
          \<exists>secret' vs'. secrets (shared c') key = Some secret' \<and> Versions secret' = Some vs'
            \<and> committed c' secret' = committed c secret
            \<and> (\<forall>h. holder c' = Some h \<longrightarrow> h < count c \<and> holder_ok c' secret' h)"
    and sect: "\<forall>j < count c. in_section (at (goroutines c' j)) = (holder c' = Some j)"
  shows "invariant key c0 c'"
proof -
  from inv obtain secret vs where
    s: "secrets (shared c) key = Some secret" "Versions secret = Some vs"
    and inj: "inj_on (id_of c) (returned c)"
    and img: "id_of c ` returned c = {c0 + 1 .. committed c secret}"
    and le: "c0 \<le> committed c secret"
    and rec: "\<forall>i \<in> returned c. received c i = Some (Inr (Itoa (id_of c i)))"
    unfolding invariant_def by blast
  from sec [OF s] obtain secret' vs' where
    s': "secrets (shared c') key = Some secret'" "Versions secret' = Some vs'"
    and com: "committed c' secret' = committed c secret"
    and hold: "\<forall>h. holder c' = Some h \<longrightarrow> h < count c \<and> holder_ok c' secret' h"
    by blast
  have r: "returned c' = returned c" by (rule returned_unchanged [OF g n a a'])
  have ni: "i \<notin> returned c" using a by (simp add: returned_def)
  have same: "\<And>j. j \<in> returned c \<Longrightarrow> id_of c' j = id_of c j \<and> received c' j = received c j"
    using id_of_other [OF g] ni by metis
  have inj': "inj_on (id_of c') (returned c')"
    unfolding r using inj same by (simp add: inj_on_def)
  have img': "id_of c' ` returned c' = {c0 + 1 .. committed c' secret'}"
    unfolding r com using img same by (metis image_cong)
  have rec': "\<forall>i \<in> returned c'. received c' i = Some (Inr (Itoa (id_of c' i)))"
    unfolding r using rec same by simp
  show ?thesis
    unfolding invariant_def
    using s' sect hold inj' img' le rec' by (auto simp: n com)
qed


lemmas step_simps =
  set_goroutine_simps set_secret_simps committed_def holder_ok_def in_section_def written_def
  id_of_def received_def

lemma invariant_step:
  assumes inv: "invariant (secret_key p s) c0 c"
    and bound: "c0 + int (count c) \<le> MaxInt64" and c0: "0 \<le> c0"
  shows "invariant (secret_key p s) c0 (step p s c i)"
proof (cases "i < count c")
  case False
  then show ?thesis using inv by (simp add: step_def)
next
  case i: True
  define key where "key = secret_key p s"
  define g where "g = goroutines c i"
  from inv obtain secret vs where
    s: "secrets (shared c) key = Some secret" "Versions secret = Some vs"
    and sect: "\<forall>j < count c. in_section (at (goroutines c j)) = (holder c = Some j)"
    and hold: "\<forall>h. holder c = Some h \<longrightarrow> h < count c \<and> holder_ok c secret h"
    and inj: "inj_on (id_of c) (returned c)"
    and img: "id_of c ` returned c = {c0 + 1 .. committed c secret}"
    and le: "c0 \<le> committed c secret"
    and rec: "\<forall>i \<in> returned c. received c i = Some (Inr (Itoa (id_of c i)))"
    unfolding invariant_def key_def by blast
  have holder_i: "in_section (at g) \<Longrightarrow> holder c = Some i"
    using sect i by (simp add: g_def)
  note inv' = inv [folded key_def]
  show ?thesis
  proof (cases "at g")
    case AtLock
    show ?thesis
    proof (cases "holder c")
      case (Some h)
      then show ?thesis using inv AtLock i by (simp add: step_def g_def)
    next
      case None
      have st: "step p s c i = set_goroutine (c\<lparr>holder := Some i\<rparr>) i (g\<lparr>at := AtLookup\<rparr>)"
        using AtLock None i by (simp add: step_def g_def)
      show ?thesis
        unfolding st key_def [symmetric]
        by (rule invariant_kept [OF inv', where i = i and g = "g\<lparr>at := AtLookup\<rparr>"])
          (use AtLock None i s sect in \<open>auto simp: step_simps g_def\<close>)
    qed
  next
    case AtLookup
    have st: "step p s c i = set_goroutine c i (g\<lparr>at := AtRead\<rparr>)"
      using AtLookup i s by (simp add: step_def g_def key_def)
    have h: "holder c = Some i" using holder_i AtLookup by (simp add: in_section_def)
    show ?thesis
      unfolding st key_def [symmetric]
      by (rule invariant_kept [OF inv', where i = i and g = "g\<lparr>at := AtRead\<rparr>"])
        (use AtLookup h i s sect hold in \<open>auto simp: step_simps g_def\<close>)
  next
    case AtRead
    have st: "step p s c i = set_goroutine c i (g\<lparr>at := AtWrite, counter_read := VersionCount secret\<rparr>)"
      using AtRead i s by (simp add: step_def g_def key_def)
    have h: "holder c = Some i" using holder_i AtRead by (simp add: in_section_def)
    show ?thesis
      unfolding st key_def [symmetric]
      by (rule invariant_kept [OF inv', where i = i
            and g = "g\<lparr>at := AtWrite, counter_read := VersionCount secret\<rparr>"])
        (use AtRead h i s sect hold in \<open>auto simp: step_simps g_def\<close>)
  next
    case AtWrite
    have h: "holder c = Some i" using holder_i AtWrite by (simp add: in_section_def)
    have read: "counter_read g = VersionCount secret"
      using hold h AtWrite by (simp add: holder_ok_def g_def)
    have com: "committed c secret = VersionCount secret"
      using h AtWrite by (simp add: committed_def written_def g_def)
    have "VersionCount secret = c0 + int (card (returned c))"
      using card_returned [OF inj img le] com by simp
    moreover have "card (returned c) < count c"
      by (rule card_returned_less [OF i]) (use AtWrite in \<open>simp add: g_def\<close>)
    ultimately have lt: "VersionCount secret < MaxInt64" and ge: "0 \<le> VersionCount secret"
      using bound c0 by linarith+
    have w: "wrap64 (counter_read g + 1) = VersionCount secret + 1"
      unfolding read using ge lt by (rule wrap64_Suc)
    have st: "step p s c i
        = set_goroutine (set_secret c key (secret\<lparr>VersionCount := VersionCount secret + 1\<rparr>))
            i (g\<lparr>at := AtItoa\<rparr>)"
      using AtWrite i s w by (simp add: step_def g_def key_def)
    show ?thesis
      unfolding st key_def [symmetric]
      by (rule invariant_kept [OF inv', where i = i and g = "g\<lparr>at := AtItoa\<rparr>"])
        (use AtWrite h i s sect hold read in \<open>auto simp: step_simps g_def\<close>)
  next
    case AtItoa
    have st: "step p s c i
        = set_goroutine c i (g\<lparr>at := AtStore, version_id := Itoa (VersionCount secret)\<rparr>)"
      using AtItoa i s by (simp add: step_def g_def key_def)
    have h: "holder c = Some i" using holder_i AtItoa by (simp add: in_section_def)
    show ?thesis
      unfolding st key_def [symmetric]
      by (rule invariant_kept [OF inv', where i = i
            and g = "g\<lparr>at := AtStore, version_id := Itoa (VersionCount secret)\<rparr>"])
        (use AtItoa h i s sect hold in \<open>auto simp: step_simps g_def\<close>)
  next
    case AtStore
    define version where
      "version = NewSecretVersion p s (version_id g) (payload g) (clock g) (new_etag g)"
    have h: "holder c = Some i" using holder_i AtStore by (simp add: in_section_def)
    have vid: "version_id g = Itoa (VersionCount secret)" "id_of c i = VersionCount secret"
      using hold h AtStore by (simp_all add: holder_ok_def written_def g_def)
    have id: "GetVersionID version = Itoa (VersionCount secret)"
      unfolding version_def vid by (rule GetVersionID_NewSecretVersion)
    have st: "step p s c i
        = set_goroutine
            (set_secret c key (secret\<lparr>Versions := Some (vs(version_id g \<mapsto> version))\<rparr>))
            i (g\<lparr>at := AtUnlock, ret := Some (Inr version)\<rparr>)"
      using AtStore i s by (simp add: step_def g_def key_def version_def Let_def)
    show ?thesis
      unfolding st key_def [symmetric]
      by (rule invariant_kept [OF inv', where i = i
            and g = "g\<lparr>at := AtUnlock, ret := Some (Inr version)\<rparr>"])
        (use AtStore h i s sect hold vid id in \<open>auto simp: step_simps g_def\<close>)
  next
    case AtUnlock
    have h: "holder c = Some i" using holder_i AtUnlock by (simp add: in_section_def)
    have idi: "id_of c i = VersionCount secret"
      and reci: "received c i = Some (Inr (Itoa (id_of c i)))"
      using hold h AtUnlock by (simp_all add: holder_ok_def written_def g_def)
    have com: "committed c secret = VersionCount secret - 1"
      using h AtUnlock by (simp add: committed_def written_def g_def)
    define c' where "c' = set_goroutine (c\<lparr>holder := None\<rparr>) i (g\<lparr>at := Returned\<rparr>)"
    have st: "step p s c i = c'"
      using AtUnlock i by (simp add: step_def g_def c'_def)
    have r': "returned c' = insert i (returned c)"
      using i by (auto simp: returned_def c'_def set_goroutine_simps)
    have ids: "id_of c' = id_of c" "received c' = received c"
      by (auto simp: fun_eq_iff id_of_def received_def c'_def set_goroutine_simps g_def)
    have com': "committed c' secret = VersionCount secret"
      by (simp add: committed_def c'_def set_goroutine_simps)
    have notin: "id_of c i \<notin> id_of c ` returned c"
      unfolding img com idi by simp
    have inj': "inj_on (id_of c') (returned c')"
      unfolding r' ids using inj notin by (auto simp: inj_on_insert)
    have img': "id_of c' ` returned c' = {c0 + 1 .. committed c' secret}"
      unfolding r' ids com' using img le com idi by auto
    have sect': "\<forall>j < count c'. in_section (at (goroutines c' j)) = (holder c' = Some j)"
      using sect h by (auto simp: c'_def set_goroutine_simps in_section_def)
    have rec': "\<forall>j \<in> returned c'. received c' j = Some (Inr (Itoa (id_of c' j)))"
      unfolding r' ids using rec reci by simp
    have s': "secrets (shared c') key = Some secret"
      using s by (simp add: c'_def set_goroutine_simps)
    have hold': "\<forall>h. holder c' = Some h \<longrightarrow> h < count c' \<and> holder_ok c' secret h"
      by (simp add: c'_def set_goroutine_simps)
    have le': "c0 \<le> committed c' secret" using le com com' by simp
    show ?thesis
      unfolding st invariant_def key_def [symmetric]
      using s' s(2) sect' hold' inj' img' le' rec' by blast
  next
    case Returned
    then show ?thesis using inv i by (simp add: step_def g_def)
  qed
qed


lemma invariant_run:
  assumes "invariant (secret_key p s) c0 c"
    and "c0 + int (count c) \<le> MaxInt64" and "0 \<le> c0"
  shows "invariant (secret_key p s) c0 (run p s c sched) \<and> count (run p s c sched) = count c"
  using assms
proof (induction sched arbitrary: c)
  case Nil
  then show ?case by (simp add: run_def)
next
  case (Cons i sched)
  have n: "count (step p s c i) = count c"
    by (auto simp: step_def Let_def set_goroutine_simps set_secret_simps split: pc.splits option.splits)
  have "invariant (secret_key p s) c0 (step p s c i)"
    by (rule invariant_step [OF Cons.prems])
  from Cons.IH [OF this] Cons.prems(2,3) n show ?case
    by (simp add: run_def)
qed


lemma solo_run:
  assumes "holder c = None" and "at (goroutines c i) = AtLock" and "i < count c"
  shows "holder (foldl (step p s) c [i, i, i, i, i, i, i]) = None
         \<and> at (goroutines (foldl (step p s) c [i, i, i, i, i, i, i]) i) = Returned
         \<and> count (foldl (step p s) c [i, i, i, i, i, i, i]) = count c
         \<and> (\<forall>j. j \<noteq> i \<longrightarrow>
               goroutines (foldl (step p s) c [i, i, i, i, i, i, i]) j = goroutines c j)"
  using assms
  by (cases "secrets (shared c) (secret_key p s)";
      cases "Option.bind (secrets (shared c) (secret_key p s)) Versions")
    (auto simp: step_def Let_def set_goroutine_def set_secret_def split: option.splits)

lemma one_after_the_other_run:
  assumes "k \<le> n"
  shows "holder (run p s (init m n calls) (one_after_the_other k)) = None
         \<and> count (run p s (init m n calls) (one_after_the_other k)) = n
         \<and> (\<forall>i < k. at (goroutines (run p s (init m n calls) (one_after_the_other k)) i) = Returned)
         \<and> (\<forall>i \<ge> k. at (goroutines (run p s (init m n calls) (one_after_the_other k)) i) = AtLock)"
  using assms
proof (induction k)
  case 0
  then show ?case by (simp add: one_after_the_other_def run_def init_def spawn_def)
next
  case (Suc k)
  define c where "c = run p s (init m n calls) (one_after_the_other k)"
  from Suc have ih: "holder c = None" "count c = n"
    "\<forall>i < k. at (goroutines c i) = Returned" "\<forall>i \<ge> k. at (goroutines c i) = AtLock"
    by (simp_all add: c_def)
  have next_run: "run p s (init m n calls) (one_after_the_other (Suc k))
                = foldl (step p s) c [k, k, k, k, k, k, k]"
    by (simp add: one_after_the_other_def run_def c_def)
  have k: "k < count c" using Suc.prems ih(2) by simp
  have atk: "at (goroutines c k) = AtLock" using ih(4) by simp
  from solo_run [OF ih(1) atk k, of p s] ih(2,3,4) show ?case
    unfolding next_run by (auto simp: less_Suc_eq)
qed

lemma all_return:
  "returned (run p s (init m n calls) (one_after_the_other n)) = {..<n}"
  using one_after_the_other_run [of n n p s m calls] by (auto simp: returned_def)

text \<open>
  C9: \<open>n\<close> goroutines call \<^verbatim>\<open>AddSecretVersion\<close> on one secret whose counter is \<open>c\<close>.
  In every state that any interleaving of their steps reaches, no two goroutines that have
  returned received the same version-id, and each received the id of a number in
  \<open>c + 1, ..., c + n\<close>; once all \<open>n\<close> have returned, the ids they received are exactly
  those of \<open>c + 1, ..., c + n\<close>: a contiguous range, no id twice and none missing. All
  \<open>n\<close> do return when they run one after the other. The counter is within the range of
  \<^verbatim>\<open>int\<close>.
\<close>

theorem concurrent_adds_distinct_contiguous:
  assumes "secrets m (secret_key projectID secretID) = Some secret"
    and "Versions secret \<noteq> None"
    and "0 \<le> VersionCount secret"
    and "VersionCount secret + int n \<le> MaxInt64"
  shows "(\<forall>i \<in> returned (run projectID secretID (init m n calls) sched).
            \<forall>j \<in> returned (run projectID secretID (init m n calls) sched).
              received (run projectID secretID (init m n calls) sched) i
                = received (run projectID secretID (init m n calls) sched) j \<longrightarrow> i = j)
         \<and> (\<forall>i \<in> returned (run projectID secretID (init m n calls) sched).
              \<exists>k. received (run projectID secretID (init m n calls) sched) i = Some (Inr (Itoa k))
                \<and> VersionCount secret < k \<and> k \<le> VersionCount secret + int n)
         \<and> (returned (run projectID secretID (init m n calls) sched) = {..<n} \<longrightarrow>
               received (run projectID secretID (init m n calls) sched) ` {..<n}
                 = (\<lambda>k. Some (Inr (Itoa k))) ` {VersionCount secret + 1 .. VersionCount secret + int n})
         \<and> returned (run projectID secretID (init m n calls) (one_after_the_other n)) = {..<n}"
proof -
  define final where "final = run projectID secretID (init m n calls) sched"
  define c0 where "c0 = VersionCount secret"
  from assms(2) obtain vs where vs: "Versions secret = Some vs" by auto
  have n0: "count (init m n calls) = n" by (simp add: init_def)
  have "invariant (secret_key projectID secretID) c0 (init m n calls)"
    unfolding c0_def by (rule invariant_init [OF assms(1) vs])
  from invariant_run [OF this, of sched] assms(3,4)
  have inv: "invariant (secret_key projectID secretID) c0 final" and n: "count final = n"
    by (simp_all add: n0 c0_def final_def)
  from inv obtain secret' where
    inj: "inj_on (id_of final) (returned final)"
    and img: "id_of final ` returned final = {c0 + 1 .. committed final secret'}"
    and le: "c0 \<le> committed final secret'"
    and rec: "\<forall>i \<in> returned final. received final i = Some (Inr (Itoa (id_of final i)))"
    unfolding invariant_def by blast
  have top: "committed final secret' = c0 + int (card (returned final))"
    by (rule card_returned [OF inj img le])
  have "card (returned final) \<le> card {..<n}"
    using returned_subset [of final] unfolding n by (intro card_mono) simp_all
  then have top_le: "committed final secret' \<le> c0 + int n" using top by simp
  have 1: "\<forall>i \<in> returned final. \<forall>j \<in> returned final.
              received final i = received final j \<longrightarrow> i = j"
  proof (intro ballI impI)
    fix i j assume i: "i \<in> returned final" and j: "j \<in> returned final"
      and eq: "received final i = received final j"
    from rec i j eq have "Itoa (id_of final i) = Itoa (id_of final j)" by simp
    then have "id_of final i = id_of final j" by (rule Itoa_inj)
    with inj i j show "i = j" by (simp add: inj_on_def)
  qed
  have 2: "\<forall>i \<in> returned final.
              \<exists>k. received final i = Some (Inr (Itoa k)) \<and> c0 < k \<and> k \<le> c0 + int n"
  proof
    fix i assume i: "i \<in> returned final"
    then have "id_of final i \<in> {c0 + 1 .. committed final secret'}" using img by blast
    then have "c0 < id_of final i \<and> id_of final i \<le> c0 + int n" using top_le by simp
    with rec i show "\<exists>k. received final i = Some (Inr (Itoa k)) \<and> c0 < k \<and> k \<le> c0 + int n"
      by blast
  qed
  have 3: "returned final = {..<n} \<longrightarrow>
             received final ` {..<n} = (\<lambda>k. Some (Inr (Itoa k))) ` {c0 + 1 .. c0 + int n}"
  proof
    assume all: "returned final = {..<n}"
    then have "committed final secret' = c0 + int n" using top by simp
    then have ids: "id_of final ` {..<n} = {c0 + 1 .. c0 + int n}" using img all by simp
    have "received final ` {..<n} = (\<lambda>i. Some (Inr (Itoa (id_of final i)))) ` {..<n}"
      using rec all by (intro image_cong) simp_all
    also have "\<dots> = (\<lambda>k. Some (Inr (Itoa k))) ` (id_of final ` {..<n})"
      by (simp add: image_image)
    finally show "received final ` {..<n} = (\<lambda>k. Some (Inr (Itoa k))) ` {c0 + 1 .. c0 + int n}"
      by (simp only: ids)
  qed
  have 4: "returned (run projectID secretID (init m n calls) (one_after_the_other n)) = {..<n}"
    by (rule all_return)
  show ?thesis
    using 1 2 3 4 unfolding final_def c0_def by blast
qed


lemma GetVersionID_small:
  "GetVersionID (NewSecretVersion p s ''1'' data now etag) = ''1''"
  "GetVersionID (NewSecretVersion p s ''2'' data now etag) = ''2''"
  using GetVersionID_NewSecretVersion [of p s 1 data now etag]
    GetVersionID_NewSecretVersion [of p s 2 data now etag]
  by (simp_all add: Itoa_small)

lemma interleaved_run:
  "at (goroutines (run ''p1'' ''s1'' (init store_p1_s1 2 two_goroutines) interleaved) 0) = Returned"
  "at (goroutines (run ''p1'' ''s1'' (init store_p1_s1 2 two_goroutines) interleaved) (Suc 0)) = Returned"
  "received (run ''p1'' ''s1'' (init store_p1_s1 2 two_goroutines) interleaved) 0 = Some (Inr ''1'')"
  "received (run ''p1'' ''s1'' (init store_p1_s1 2 two_goroutines) interleaved) (Suc 0) = Some (Inr ''2'')"
  "count (run ''p1'' ''s1'' (init store_p1_s1 2 two_goroutines) interleaved) = 2"
  by (simp_all add: run_def interleaved_def step_def init_def spawn_def set_goroutine_def
      set_secret_def Let_def store_p1_s1_eq secret_key_def wrap64_small Itoa_small
      two_goroutines_def secret_p1_s1_def NewSecret_def received_def GetVersionID_small)


theorem concurrent_adds_distinct_contiguous_witness:
  "secrets store_p1_s1 (secret_key ''p1'' ''s1'') = Some secret_p1_s1
   \<and> Versions secret_p1_s1 \<noteq> None
   \<and> 0 \<le> VersionCount secret_p1_s1
   \<and> VersionCount secret_p1_s1 + int 2 \<le> MaxInt64
   \<and> returned (run ''p1'' ''s1'' (init store_p1_s1 2 two_goroutines) interleaved) = {..<2}
   \<and> received (run ''p1'' ''s1'' (init store_p1_s1 2 two_goroutines) interleaved) 0
       = Some (Inr ''1'')
   \<and> received (run ''p1'' ''s1'' (init store_p1_s1 2 two_goroutines) interleaved) 1
       = Some (Inr ''2'')
   \<and> received (run ''p1'' ''s1'' (init store_p1_s1 2 two_goroutines) interleaved) ` {..<2}
       = {Some (Inr ''1''), Some (Inr ''2'')}"
proof -
  define final where "final = run ''p1'' ''s1'' (init store_p1_s1 2 two_goroutines) interleaved"
  have h1: "secrets store_p1_s1 (secret_key ''p1'' ''s1'') = Some secret_p1_s1"
    by (simp add: store_p1_s1_eq secret_key_def)
  have c0: "VersionCount secret_p1_s1 = 0" by (simp add: secret_p1_s1_def NewSecret_def)
  have h2: "Versions secret_p1_s1 \<noteq> None" by (simp add: secret_p1_s1_def NewSecret_def)
  have h3: "0 \<le> VersionCount secret_p1_s1" by (simp add: c0)
  have h4: "VersionCount secret_p1_s1 + int 2 \<le> MaxInt64" by (simp add: c0 MaxInt64_def)
  have all: "returned final = {..<2}"
  proof -
    have "\<And>i. i < 2 \<Longrightarrow> at (goroutines final i) = Returned"
      using interleaved_run(1,2) unfolding final_def by (metis less_2_cases)
    then show ?thesis using interleaved_run(5) by (auto simp: returned_def final_def)
  qed
  have ids: "(\<lambda>k. Some (Inr (Itoa k)) :: (error + string) option) ` {0 + 1 .. 0 + int 2}
               = {Some (Inr ''1''), Some (Inr ''2'')}"
  proof -
    have "{0 + 1 .. 0 + int 2} = {1, 2 :: int}" by auto
    then show ?thesis by (simp add: Itoa_small)
  qed
  from concurrent_adds_distinct_contiguous [OF h1 h2 h3 h4, of two_goroutines interleaved]
  have "returned final = {..<2} \<longrightarrow>
          received final ` {..<2}
            = (\<lambda>k. Some (Inr (Itoa k))) ` {VersionCount secret_p1_s1 + 1 .. VersionCount secret_p1_s1 + int 2}"
    unfolding final_def by blast
  with all have img: "received final ` {..<2} = {Some (Inr ''1''), Some (Inr ''2'')}"
    unfolding c0 ids by simp
  show ?thesis
    using h1 h2 h3 h4 all img interleaved_run(3,4) unfolding final_def by simp
qed

end
